theory Spec2Isabelle
  imports Main "HOL-Library.Multiset"
begin

section \<open>Data model\<close>

text \<open>
  The two collectors of \<^verbatim>\<open>graph_env/env/utils/collectors\<close> share their data: one row of
  \<^verbatim>\<open>self.data\<close> per active lane, a dictionary of pending rows keyed by buffer id
  (\<^verbatim>\<open>temp_data\<close>) and a dictionary of done buffer ids per environment
  (\<^verbatim>\<open>done_agents_per_env\<close>).  Every \<^verbatim>\<open>raise\<close>, failed \<^verbatim>\<open>assert\<close> and failed
  dictionary or array access of the source is a value of \<open>error\<close>.
\<close>

datatype error =
  AssertionError | TypeError | KeyError | IndexError | UnboundLocalError | ZeroDivisionError |
  AttributeError

text \<open>
  An observation carries the acting agent and a payload.  The source reads the agent's
  index out of its name (\<^verbatim>\<open>int("".join(c for c in agent_num if c.isdigit()))\<close>); the
  model starts from that index.
\<close>

record observation =
  agent_id :: nat
  content :: nat

text \<open>
  The info dictionary of one lane: \<^verbatim>\<open>env_id\<close>, the two optional flags read with
  \<^verbatim>\<open>.get(key, False)\<close>, and the \<^verbatim>\<open>indices\<close> row that only
  \<^verbatim>\<open>CollectiveExperienceCollector._add_extra_info\<close> writes (\<open>None\<close> while absent).
\<close>

record step_info =
  env_id :: nat
  environment_step :: bool
  explicit_reset :: bool
  indices :: "int list option"

text \<open>One row of \<^verbatim>\<open>self.data\<close> (a \<^verbatim>\<open>Batch\<close> of length one).\<close>

record transition =
  obs :: observation
  act :: nat
  rew :: int
  obs_next :: observation
  terminated :: bool
  truncated :: bool
  done_flag :: bool
  info :: step_info

text \<open>
  What the collector is built with.  The replay buffer is an external collaborator: the
  model keeps the history of its \<^verbatim>\<open>add\<close> calls, and \<open>slot_index\<close> stands for
  \<^verbatim>\<open>buffer.buffers[b]._index + buffer._offset[b]\<close> as a function of that history.
\<close>

record config =
  agents_num :: nat
  env_num :: nat
  is_async :: bool
  slot_index :: "(transition list \<times> nat list) list \<Rightarrow> nat \<Rightarrow> int"

text \<open>
  The state of \<^verbatim>\<open>MultiAgentCollector.collect\<close>: the two dictionaries of \<^verbatim>\<open>self\<close>, the
  three lists rebuilt on every tick, the buffer's \<^verbatim>\<open>add\<close> history, whether
  \<^verbatim>\<open>ptr, ep_rew, ep_len, ep_idx\<close> have been bound yet, and the loop's own variables.
  The statistics lists (\<^verbatim>\<open>episode_lens\<close>, \<^verbatim>\<open>episode_returns\<close>,
  \<^verbatim>\<open>episode_start_indices\<close>, \<^verbatim>\<open>episode_info\<close>) feed nothing back into the loop and
  are left out.
\<close>

record ma_state =
  temp_data :: "nat \<rightharpoonup> transition"
  done_agents_per_env :: "nat \<rightharpoonup> nat list"
  experience_to_save :: "transition list"
  buffer_ids_to_save :: "nat list"
  done_envs :: "(nat \<times> nat \<times> int) list"
  buffer :: "(transition list \<times> nat list) list"
  stats_bound :: bool
  ready_env_ids :: "nat list"
  step_count :: nat
  episode_count :: nat
  warned :: bool

text \<open>
  \<^verbatim>\<open>CollectiveExperienceCollector\<close> adds \<^verbatim>\<open>self.temp_buffer_data\<close>: per environment the
  \<^verbatim>\<open>ready\<close> and \<^verbatim>\<open>filling\<close> arrays (\<open>- 1\<close> is the empty entry), the accumulated rows and
  their buffer ids.  Its \<^verbatim>\<open>indices_to_save\<close> entry is never read or written by
  \<^verbatim>\<open>collect\<close>.
\<close>

record ce_state = ma_state +
  tbd_ready :: "nat \<rightharpoonup> int list"
  tbd_filling :: "nat \<rightharpoonup> int list"
  tbd_exps_to_save :: "nat \<rightharpoonup> transition list"
  tbd_buffer_ids_to_save :: "nat \<rightharpoonup> nat list"

datatype 'a outcome = Raised error | Running 'a | Returned 'a

definition then_do :: "error + 'a \<Rightarrow> ('a \<Rightarrow> error + 'b) \<Rightarrow> error + 'b" where
  "then_do r f = (case r of Inl e \<Rightarrow> Inl e | Inr x \<Rightarrow> f x)"

section \<open>Shared steps of the lane loop\<close>

text \<open>The buffer id of an agent: \<^verbatim>\<open>env_id * self.agents_num + agent_id\<close>.\<close>

definition buffer_id_of :: "config \<Rightarrow> nat \<Rightarrow> nat \<Rightarrow> nat" where
  "buffer_id_of cfg e a = e * agents_num cfg + a"

text \<open>The buffer ids of a row: of the agent that acted, and of the agent that acts next.\<close>

abbreviation buffer_id :: "config \<Rightarrow> transition \<Rightarrow> nat" where
  "buffer_id cfg row \<equiv> buffer_id_of cfg (env_id (info row)) (agent_id (obs row))"

abbreviation next_buffer_id :: "config \<Rightarrow> transition \<Rightarrow> nat" where
  "next_buffer_id cfg row \<equiv> buffer_id_of cfg (env_id (info row)) (agent_id (obs_next row))"

text \<open>
  A pending row takes the outcome fields of the current row
  (\<^verbatim>\<open>rew\<close>, \<^verbatim>\<open>obs_next\<close>, \<^verbatim>\<open>terminated\<close>, \<^verbatim>\<open>truncated\<close>, \<^verbatim>\<open>done\<close>, \<^verbatim>\<open>info\<close>) and
  keeps its own observation and action.
\<close>

definition complete_pending :: "transition \<Rightarrow> transition \<Rightarrow> transition" where
  "complete_pending p row =
     p\<lparr>rew := rew row, obs_next := obs_next row, terminated := terminated row,
       truncated := truncated row, done_flag := done_flag row, info := info row\<rparr>"

text \<open>
  \<^verbatim>\<open>if done[env_idx]:\<close> the next buffer id is appended to the environment's done list, and
  the lane is recorded in \<^verbatim>\<open>done_envs\<close> when the list's length is \<^verbatim>\<open>agents_num\<close> or
  the info has \<^verbatim>\<open>explicit_reset\<close>.
\<close>

definition mark_done ::
  "config \<Rightarrow> nat \<Rightarrow> transition \<Rightarrow> nat \<Rightarrow> 'a ma_state_scheme \<Rightarrow> error + 'a ma_state_scheme" where
  "mark_done cfg env_idx row nb s =
     (if done_flag row then
        (case done_agents_per_env s (env_id (info row)) of
           None \<Rightarrow> Inl KeyError
         | Some d \<Rightarrow>
             let s1 = s\<lparr>done_agents_per_env :=
                        (done_agents_per_env s)(env_id (info row) \<mapsto> d @ [nb])\<rparr>
             in Inr (if length (d @ [nb]) = agents_num cfg \<or> explicit_reset (info row)
                     then s1\<lparr>done_envs := done_envs s1 @
                            [(env_idx, env_id (info row),
                              int (length (experience_to_save s1)) - 1)]\<rparr>
                     else s1))
      else Inr s)"

text \<open>
  The last statement of the lane body: the current row is stored as pending under its own
  buffer id when the next agent differs, the done list is not full and the buffer id is
  not in it.  The assignment is a plain dictionary store.
\<close>

definition store_pending ::
  "config \<Rightarrow> transition \<Rightarrow> nat \<Rightarrow> nat \<Rightarrow> 'a ma_state_scheme \<Rightarrow> error + 'a ma_state_scheme" where
  "store_pending cfg row b nb s =
     (if b \<noteq> nb then
        (case done_agents_per_env s (env_id (info row)) of
           None \<Rightarrow> Inl KeyError
         | Some d \<Rightarrow>
             Inr (if length d \<noteq> agents_num cfg \<and> b \<notin> set d
                  then s\<lparr>temp_data := (temp_data s)(b \<mapsto> row)\<rparr>
                  else s))
      else Inr s)"

section \<open>MultiAgentCollector\<close>

text \<open>Lines 242 to 253: the next agent's pending row is completed, queued and popped.\<close>

definition ma_resolve :: "transition \<Rightarrow> nat \<Rightarrow> 'a ma_state_scheme \<Rightarrow> 'a ma_state_scheme" where
  "ma_resolve row nb s =
     (case temp_data s nb of
        None \<Rightarrow> s
      | Some p \<Rightarrow>
          s\<lparr>experience_to_save := experience_to_save s @ [complete_pending p row],
            buffer_ids_to_save := buffer_ids_to_save s @ [nb],
            temp_data := (temp_data s)(nb := None)\<rparr>)"

text \<open>Lines 256 to 258: the same agent acts next, the row is queued as it is.\<close>

definition ma_same :: "transition \<Rightarrow> nat \<Rightarrow> nat \<Rightarrow> 'a ma_state_scheme \<Rightarrow> 'a ma_state_scheme" where
  "ma_same row b nb s =
     (if b = nb
      then s\<lparr>experience_to_save := experience_to_save s @ [row],
             buffer_ids_to_save := buffer_ids_to_save s @ [b]\<rparr>
      else s)"

definition ma_lane ::
  "config \<Rightarrow> nat \<Rightarrow> transition \<Rightarrow> 'a ma_state_scheme \<Rightarrow> error + 'a ma_state_scheme" where
  "ma_lane cfg env_idx row s =
     (let b = buffer_id_of cfg (env_id (info row)) (agent_id (obs row));
          nb = buffer_id_of cfg (env_id (info row)) (agent_id (obs_next row))
      in then_do (mark_done cfg env_idx row nb (ma_same row b nb (ma_resolve row nb s)))
           (store_pending cfg row b nb))"

fun ma_lanes ::
  "config \<Rightarrow> nat \<Rightarrow> transition list \<Rightarrow> 'a ma_state_scheme \<Rightarrow> error + 'a ma_state_scheme" where
  "ma_lanes cfg i [] s = Inr s"
| "ma_lanes cfg i (row # rows) s = then_do (ma_lane cfg i row s) (ma_lanes cfg (Suc i) rows)"

text \<open>The three lists every tick starts from.\<close>

definition begin_tick :: "'a ma_state_scheme \<Rightarrow> 'a ma_state_scheme" where
  "begin_tick s = s\<lparr>experience_to_save := [], buffer_ids_to_save := [], done_envs := []\<rparr>"

text \<open>Lines 270 to 274: one \<^verbatim>\<open>buffer.add\<close> call for the tick, counted by its length.\<close>

definition ma_flush :: "'a ma_state_scheme \<Rightarrow> 'a ma_state_scheme" where
  "ma_flush s =
     (if buffer_ids_to_save s \<noteq> []
      then s\<lparr>buffer := buffer s @ [(experience_to_save s, buffer_ids_to_save s)],
             stats_bound := True,
             step_count := step_count s + length (buffer_ids_to_save s)\<rparr>
      else s)"

text \<open>
  \<^verbatim>\<open>mask = np.ones_like(ready_env_ids, dtype=bool); mask[idxs] = False;
  ready_env_ids[mask]\<close>: an index past the end raises.
\<close>

definition mask_out :: "nat list \<Rightarrow> 'b list \<Rightarrow> error + 'b list" where
  "mask_out idxs xs =
     (if list_ex (\<lambda>i. length xs \<le> i) idxs then Inl IndexError
      else Inr (map snd (filter (\<lambda>p. fst p \<notin> set idxs) (enumerate 0 xs))))"

text \<open>Lines 296 to 302, the same in both collectors: surplus lanes leave the ready set.\<close>

definition trim ::
  "int option \<Rightarrow> nat list \<Rightarrow> 'a ma_state_scheme \<Rightarrow> error + 'a ma_state_scheme" where
  "trim n_episode env_ind_local s =
     (case n_episode of
        None \<Rightarrow> Inr s
      | Some n \<Rightarrow>
          if n = 0 then Inr s
          else
            let surplus_env_num = int (length (ready_env_ids s)) - (n - int (episode_count s))
            in if surplus_env_num > 0
               then then_do (mask_out (take (nat surplus_env_num) env_ind_local) (ready_env_ids s))
                      (\<lambda>r. Inr (s\<lparr>ready_env_ids := r\<rparr>))
               else Inr s)"

text \<open>
  Lines 278 to 302: the episode counter, the read of the statistics of the last
  \<^verbatim>\<open>buffer.add\<close> (unbound when no call of this \<^verbatim>\<open>collect\<close> has added yet), the reset of
  the done lists, and the trimming.
\<close>

definition ma_finish :: "int option \<Rightarrow> 'a ma_state_scheme \<Rightarrow> error + 'a ma_state_scheme" where
  "ma_finish n_episode s =
     (if done_envs s = [] then Inr s
      else if \<not> stats_bound s then Inl UnboundLocalError
      else
        let env_ind_local = map fst (done_envs s);
            env_ind_global = map (\<lambda>d. fst (snd d)) (done_envs s)
        in trim n_episode env_ind_local
             (s\<lparr>episode_count := episode_count s + length (done_envs s),
                done_agents_per_env :=
                  foldl (\<lambda>m e. m(e \<mapsto> [])) (done_agents_per_env s) env_ind_global\<rparr>))"

definition ma_tick ::
  "config \<Rightarrow> int option \<Rightarrow> transition list \<Rightarrow> 'a ma_state_scheme \<Rightarrow> error + 'a ma_state_scheme" where
  "ma_tick cfg n_episode rows s =
     then_do (ma_lanes cfg 0 rows (begin_tick s)) (\<lambda>s1. ma_finish n_episode (ma_flush s1))"

text \<open>
  Line 307: \<^verbatim>\<open>(n_step and step_count >= n_step) or (n_episode and episode_count >= n_episode)\<close>.
\<close>

definition target_reached :: "int option \<Rightarrow> int option \<Rightarrow> 'a ma_state_scheme \<Rightarrow> bool" where
  "target_reached n_step n_episode s =
     ((case n_step of None \<Rightarrow> False | Some n \<Rightarrow> n \<noteq> 0 \<and> n \<le> int (step_count s)) \<or>
      (case n_episode of None \<Rightarrow> False | Some n \<Rightarrow> n \<noteq> 0 \<and> n \<le> int (episode_count s)))"

text \<open>
  The \<^verbatim>\<open>while True\<close> loop, driven by what the policy and the environment produce: the
  script gives, for each tick, the rows of \<^verbatim>\<open>self.data\<close> after the environment step.  The
  loop returns when a target is reached; a script that ends before leaves it running.
  The assertion of line 151 fails on a tick whose rows are not one per ready lane.
\<close>

fun ma_loop ::
  "config \<Rightarrow> int option \<Rightarrow> int option \<Rightarrow> 'a ma_state_scheme \<Rightarrow> transition list list \<Rightarrow>
   'a ma_state_scheme outcome" where
  "ma_loop cfg n_step n_episode s [] = Running s"
| "ma_loop cfg n_step n_episode s (rows # script) =
     (if length rows \<noteq> length (ready_env_ids s) then Raised AssertionError
      else
        (case ma_tick cfg n_episode rows s of
           Inl e \<Rightarrow> Raised e
         | Inr s' \<Rightarrow>
             if target_reached n_step n_episode s' then Returned s'
             else ma_loop cfg n_step n_episode s' script))"

text \<open>
  Lines 119 to 140, the same in both collectors: the checks of the two targets, giving the
  first ready lanes and whether the warning was issued.
\<close>

definition collect_targets :: "config \<Rightarrow> int option \<Rightarrow> int option \<Rightarrow> error + (nat list \<times> bool)" where
  "collect_targets cfg n_step n_episode =
     (if is_async cfg then Inl AssertionError
      else
        (case n_step of
           Some n \<Rightarrow>
             if n_episode \<noteq> None then Inl AssertionError
             else if \<not> 0 < n then Inl AssertionError
             else if env_num cfg = 0 then Inl ZeroDivisionError
             else Inr ([0..<env_num cfg], n mod int (env_num cfg) \<noteq> 0)
         | None \<Rightarrow>
             (case n_episode of
                Some m \<Rightarrow>
                  if \<not> 0 < m then Inl AssertionError
                  else Inr ([0..<min (env_num cfg) (nat m)], False)
              | None \<Rightarrow> Inl TypeError)))"

definition begin_collect :: "nat list \<Rightarrow> bool \<Rightarrow> 'a ma_state_scheme \<Rightarrow> 'a ma_state_scheme" where
  "begin_collect ready w s =
     s\<lparr>ready_env_ids := ready, step_count := 0, episode_count := 0,
       stats_bound := False, warned := w\<rparr>"

definition ma_collect ::
  "config \<Rightarrow> int option \<Rightarrow> int option \<Rightarrow> 'a ma_state_scheme \<Rightarrow> transition list list \<Rightarrow>
   'a ma_state_scheme outcome" where
  "ma_collect cfg n_step n_episode s script =
     (case collect_targets cfg n_step n_episode of
        Inl e \<Rightarrow> Raised e
      | Inr (ready, w) \<Rightarrow> ma_loop cfg n_step n_episode (begin_collect ready w s) script)"

text \<open>\<^verbatim>\<open>MultiAgentCollector.reset\<close>: no pending row, an empty done list per environment.\<close>

definition ma_reset :: "config \<Rightarrow> ma_state" where
  "ma_reset cfg =
     \<lparr>temp_data = Map.empty,
      done_agents_per_env = (\<lambda>i. if i < env_num cfg then Some [] else None),
      experience_to_save = [], buffer_ids_to_save = [], done_envs = [],
      buffer = [], stats_bound = False, ready_env_ids = [],
      step_count = 0, episode_count = 0, warned = False\<rparr>"

section \<open>CollectiveExperienceCollector\<close>

definition live :: "int list \<Rightarrow> int list" where
  "live arr = filter (\<lambda>x. x \<noteq> - 1) arr"

definition empty_slots :: "config \<Rightarrow> int list" where
  "empty_slots cfg = replicate (agents_num cfg) (- 1)"

text \<open>
  Lines 259 to 261: the acting agent's entry of \<^verbatim>\<open>filling\<close> is asserted empty, then set to
  the buffer id, or left empty when the buffer id is in the done list.
\<close>

definition ce_mark_filling ::
  "config \<Rightarrow> transition \<Rightarrow> 'a ce_state_scheme \<Rightarrow> error + 'a ce_state_scheme" where
  "ce_mark_filling cfg row s =
     (let e = env_id (info row); a = agent_id (obs row); b = buffer_id_of cfg e a in
      case tbd_filling s e of
        None \<Rightarrow> Inl KeyError
      | Some f \<Rightarrow>
          if length f \<le> a then Inl IndexError
          else if f ! a \<noteq> - 1 then Inl AssertionError
          else
            (case done_agents_per_env s e of
               None \<Rightarrow> Inl KeyError
             | Some d \<Rightarrow>
                 Inr (s\<lparr>tbd_filling :=
                          (tbd_filling s)(e \<mapsto> f[a := (if b \<notin> set d then int b else - 1)])\<rparr>)))"

text \<open>
  Lines 264 to 266: on \<^verbatim>\<open>environment_step\<close> or \<^verbatim>\<open>explicit_reset\<close>, a \<^verbatim>\<open>filling\<close> array
  with a live entry becomes the \<^verbatim>\<open>ready\<close> array and a fresh empty array takes its place.
\<close>

definition ce_boundary ::
  "config \<Rightarrow> transition \<Rightarrow> 'a ce_state_scheme \<Rightarrow> error + 'a ce_state_scheme" where
  "ce_boundary cfg row s =
     (let e = env_id (info row) in
      if environment_step (info row) \<or> explicit_reset (info row) then
        (case tbd_filling s e of
           None \<Rightarrow> Inl KeyError
         | Some f \<Rightarrow>
             Inr (if live f \<noteq> []
                  then s\<lparr>tbd_ready := (tbd_ready s)(e \<mapsto> f),
                         tbd_filling := (tbd_filling s)(e \<mapsto> empty_slots cfg)\<rparr>
                  else s))
      else Inr s)"

text \<open>
  Lines 269 to 281: the next agent's pending row is completed and moved to the
  environment's accumulator; its buffer id must not be accumulated already.
\<close>

definition ce_resolve ::
  "transition \<Rightarrow> nat \<Rightarrow> 'a ce_state_scheme \<Rightarrow> error + 'a ce_state_scheme" where
  "ce_resolve row nb s =
     (let e = env_id (info row) in
      case temp_data s nb of
        None \<Rightarrow> Inr s
      | Some p \<Rightarrow>
          (case tbd_exps_to_save s e of
             None \<Rightarrow> Inl KeyError
           | Some xs \<Rightarrow>
               (case tbd_buffer_ids_to_save s e of
                  None \<Rightarrow> Inl KeyError
                | Some ids \<Rightarrow>
                    if nb \<in> set ids then Inl AssertionError
                    else Inr (s\<lparr>tbd_exps_to_save :=
                                  (tbd_exps_to_save s)(e \<mapsto> xs @ [complete_pending p row]),
                                tbd_buffer_ids_to_save :=
                                  (tbd_buffer_ids_to_save s)(e \<mapsto> ids @ [nb]),
                                temp_data := (temp_data s)(nb := None)\<rparr>))))"

text \<open>
  Lines 284 to 289: the same agent acts next; the row goes through \<^verbatim>\<open>temp_data\<close> (stored,
  accumulated, popped) into the accumulator.
\<close>

definition ce_same ::
  "transition \<Rightarrow> nat \<Rightarrow> nat \<Rightarrow> 'a ce_state_scheme \<Rightarrow> error + 'a ce_state_scheme" where
  "ce_same row b nb s =
     (let e = env_id (info row) in
      if b = nb then
        (case tbd_exps_to_save s e of
           None \<Rightarrow> Inl KeyError
         | Some xs \<Rightarrow>
             (case tbd_buffer_ids_to_save s e of
                None \<Rightarrow> Inl KeyError
              | Some ids \<Rightarrow>
                  if b \<in> set ids then Inl AssertionError
                  else Inr (s\<lparr>tbd_exps_to_save := (tbd_exps_to_save s)(e \<mapsto> xs @ [row]),
                              tbd_buffer_ids_to_save :=
                                (tbd_buffer_ids_to_save s)(e \<mapsto> ids @ [b]),
                              temp_data := (temp_data s)(b := None)\<rparr>)))
      else Inr s)"

text \<open>
  \<^verbatim>\<open>_add_extra_info(env_id)\<close> with \<^verbatim>\<open>resync_rews=False\<close>, as \<^verbatim>\<open>collect\<close> calls it: every
  accumulated row's info gets the buffer indices of the ready array's entries.  On an
  empty accumulator the source's \<^verbatim>\<open>Batch().info\<close> raises; \<open>ce_flush_round\<close> has that branch.
\<close>

definition add_extra_info ::
  "config \<Rightarrow> (transition list \<times> nat list) list \<Rightarrow> int list \<Rightarrow> transition list \<Rightarrow>
   transition list" where
  "add_extra_info cfg buf ready_arr xs =
     (let idx = map (\<lambda>b. if b \<noteq> - 1 then slot_index cfg buf (nat b) else - 1) ready_arr
      in map (\<lambda>x. x\<lparr>info := (info x)\<lparr>indices := Some idx\<rparr>\<rparr>) xs)"

text \<open>
  Lines 291 to 299: when the live entries of \<^verbatim>\<open>ready\<close>, sorted, are not empty and equal the
  sorted accumulated buffer ids, the accumulator joins the tick's batch, the step counter
  grows by one, and accumulator, buffer ids and \<^verbatim>\<open>ready\<close> are emptied.
\<close>

definition ce_flush_round ::
  "config \<Rightarrow> transition \<Rightarrow> 'a ce_state_scheme \<Rightarrow> error + 'a ce_state_scheme" where
  "ce_flush_round cfg row s =
     (let e = env_id (info row) in
      case tbd_ready s e of
        None \<Rightarrow> Inl KeyError
      | Some r \<Rightarrow>
          if sort (live r) = [] then Inr s
          else
            (case tbd_buffer_ids_to_save s e of
               None \<Rightarrow> Inl KeyError
             | Some ids \<Rightarrow>
                 if sort (live r) = sort (map int ids) then
                   (case tbd_exps_to_save s e of
                      None \<Rightarrow> Inl KeyError
                    | Some xs \<Rightarrow>
                        if xs = [] then Inl AttributeError
                        else
                        Inr (s\<lparr>experience_to_save :=
                                 experience_to_save s @ add_extra_info cfg (buffer s) r xs,
                               buffer_ids_to_save := buffer_ids_to_save s @ ids,
                               step_count := step_count s + 1,
                               tbd_exps_to_save := (tbd_exps_to_save s)(e \<mapsto> []),
                               tbd_buffer_ids_to_save := (tbd_buffer_ids_to_save s)(e \<mapsto> []),
                               tbd_ready := (tbd_ready s)(e \<mapsto> empty_slots cfg)\<rparr>))
                 else Inr s))"

definition ce_lane ::
  "config \<Rightarrow> nat \<Rightarrow> transition \<Rightarrow> 'a ce_state_scheme \<Rightarrow> error + 'a ce_state_scheme" where
  "ce_lane cfg env_idx row s =
     (let b = buffer_id_of cfg (env_id (info row)) (agent_id (obs row));
          nb = buffer_id_of cfg (env_id (info row)) (agent_id (obs_next row))
      in then_do (ce_mark_filling cfg row s) (\<lambda>s1.
         then_do (ce_boundary cfg row s1) (\<lambda>s2.
         then_do (ce_resolve row nb s2) (\<lambda>s3.
         then_do (ce_same row b nb s3) (\<lambda>s4.
         then_do (ce_flush_round cfg row s4) (\<lambda>s5.
         then_do (mark_done cfg env_idx row nb s5)
           (store_pending cfg row b nb)))))))"

fun ce_lanes ::
  "config \<Rightarrow> nat \<Rightarrow> transition list \<Rightarrow> 'a ce_state_scheme \<Rightarrow> error + 'a ce_state_scheme" where
  "ce_lanes cfg i [] s = Inr s"
| "ce_lanes cfg i (row # rows) s = then_do (ce_lane cfg i row s) (ce_lanes cfg (Suc i) rows)"

text \<open>Lines 311 and 312: the tick's \<^verbatim>\<open>buffer.add\<close> call; the step counter is not touched.\<close>

definition ce_flush :: "'a ce_state_scheme \<Rightarrow> 'a ce_state_scheme" where
  "ce_flush s =
     (if buffer_ids_to_save s \<noteq> []
      then s\<lparr>buffer := buffer s @ [(experience_to_save s, buffer_ids_to_save s)],
             stats_bound := True\<rparr>
      else s)"

text \<open>
  Lines 316 to 350: as in the other collector, with the local indices sorted and the
  \<^verbatim>\<open>ready\<close> and \<^verbatim>\<open>filling\<close> arrays of the finished environments emptied.
\<close>

definition ce_finish ::
  "config \<Rightarrow> int option \<Rightarrow> 'a ce_state_scheme \<Rightarrow> error + 'a ce_state_scheme" where
  "ce_finish cfg n_episode s =
     (if done_envs s = [] then Inr s
      else if \<not> stats_bound s then Inl UnboundLocalError
      else
        let env_ind_local = sort (map fst (done_envs s));
            env_ind_global = map (\<lambda>d. fst (snd d)) (done_envs s)
        in trim n_episode env_ind_local
             (s\<lparr>episode_count := episode_count s + length (done_envs s),
                done_agents_per_env :=
                  foldl (\<lambda>m e. m(e \<mapsto> [])) (done_agents_per_env s) env_ind_global,
                tbd_ready :=
                  foldl (\<lambda>m e. m(e \<mapsto> empty_slots cfg)) (tbd_ready s) env_ind_global,
                tbd_filling :=
                  foldl (\<lambda>m e. m(e \<mapsto> empty_slots cfg)) (tbd_filling s) env_ind_global\<rparr>))"

definition ce_tick ::
  "config \<Rightarrow> int option \<Rightarrow> transition list \<Rightarrow> 'a ce_state_scheme \<Rightarrow> error + 'a ce_state_scheme" where
  "ce_tick cfg n_episode rows s =
     then_do (ce_lanes cfg 0 rows (begin_tick s)) (\<lambda>s1. ce_finish cfg n_episode (ce_flush s1))"

fun ce_loop ::
  "config \<Rightarrow> int option \<Rightarrow> int option \<Rightarrow> 'a ce_state_scheme \<Rightarrow> transition list list \<Rightarrow>
   'a ce_state_scheme outcome" where
  "ce_loop cfg n_step n_episode s [] = Running s"
| "ce_loop cfg n_step n_episode s (rows # script) =
     (if length rows \<noteq> length (ready_env_ids s) then Raised AssertionError
      else
        (case ce_tick cfg n_episode rows s of
           Inl e \<Rightarrow> Raised e
         | Inr s' \<Rightarrow>
             if target_reached n_step n_episode s' then Returned s'
             else ce_loop cfg n_step n_episode s' script))"

definition ce_collect ::
  "config \<Rightarrow> int option \<Rightarrow> int option \<Rightarrow> 'a ce_state_scheme \<Rightarrow> transition list list \<Rightarrow>
   'a ce_state_scheme outcome" where
  "ce_collect cfg n_step n_episode s script =
     (case collect_targets cfg n_step n_episode of
        Inl e \<Rightarrow> Raised e
      | Inr (ready, w) \<Rightarrow> ce_loop cfg n_step n_episode (begin_collect ready w s) script)"

text \<open>\<^verbatim>\<open>CollectiveExperienceCollector.reset\<close>.\<close>

definition ce_reset :: "config \<Rightarrow> ce_state" where
  "ce_reset cfg =
     \<lparr>temp_data = Map.empty,
      done_agents_per_env = (\<lambda>i. if i < env_num cfg then Some [] else None),
      experience_to_save = [], buffer_ids_to_save = [], done_envs = [],
      buffer = [], stats_bound = False, ready_env_ids = [],
      step_count = 0, episode_count = 0, warned = False,
      tbd_ready = (\<lambda>i. if i < env_num cfg then Some (empty_slots cfg) else None),
      tbd_filling = (\<lambda>i. if i < env_num cfg then Some (empty_slots cfg) else None),
      tbd_exps_to_save = (\<lambda>i. if i < env_num cfg then Some [] else None),
      tbd_buffer_ids_to_save = (\<lambda>i. if i < env_num cfg then Some [] else None)\<rparr>"

section \<open>Concrete inputs\<close>

text \<open>
  A collector for two agents per environment, and the row of one turn: agent \<open>a\<close> of
  environment \<open>e\<close> acts on observation \<open>t\<close>, the environment answers with observation
  \<open>t + 1\<close> for agent \<open>na\<close>, reward \<open>t\<close>, the done flag and the two info flags.
\<close>

definition two_agents :: "nat \<Rightarrow> config" where
  "two_agents n = \<lparr>agents_num = 2, env_num = n, is_async = False, slot_index = (\<lambda>_ _. 0)\<rparr>"

definition turn :: "nat \<Rightarrow> nat \<Rightarrow> nat \<Rightarrow> nat \<Rightarrow> bool \<Rightarrow> bool \<Rightarrow> bool \<Rightarrow> transition" where
  "turn e a na t d es er =
     \<lparr>obs = \<lparr>agent_id = a, content = t\<rparr>, act = t, rew = int t,
      obs_next = \<lparr>agent_id = na, content = Suc t\<rparr>, terminated = d, truncated = False,
      done_flag = d,
      info = \<lparr>env_id = e, environment_step = es, explicit_reset = er, indices = None\<rparr>\<rparr>"

text \<open>
  A multi-agent collector with one pending row, and a collective collector in the middle
  of a joint round: both agents of environment 0 are in its \<^verbatim>\<open>ready\<close> array, the first
  agent's row is accumulated, the second agent's row is pending.
\<close>

definition ma_pending :: "nat \<Rightarrow> transition \<Rightarrow> ma_state" where
  "ma_pending b p = (ma_reset (two_agents 1))\<lparr>temp_data := [b \<mapsto> p]\<rparr>"

definition ce_round_open :: ce_state where
  "ce_round_open =
     (ce_reset (two_agents 1))
       \<lparr>temp_data := [1 \<mapsto> turn 0 1 0 1 False False False],
        tbd_ready := [0 \<mapsto> [0, 1]],
        tbd_exps_to_save := [0 \<mapsto> [turn 0 0 0 0 False False False]],
        tbd_buffer_ids_to_save := [0 \<mapsto> [0]]\<rparr>"

text \<open>
  The interleaving \<^verbatim>\<open>A A A A B A B B B B\<close> of one environment with agents \<open>A = 0\<close> and
  \<open>B = 1\<close>; the last tick is done and asks for an explicit reset.
\<close>

definition interleaving :: "transition list list" where
  "interleaving =
     [[turn 0 0 0 0 False False False], [turn 0 0 0 1 False False False],
      [turn 0 0 0 2 False False False], [turn 0 0 1 3 False False False],
      [turn 0 1 0 4 False False False], [turn 0 0 1 5 False False False],
      [turn 0 1 1 6 False False False], [turn 0 1 1 7 False False False],
      [turn 0 1 1 8 False False False], [turn 0 1 1 9 True False True]]"

text \<open>
  Measures for the statements about the \<^verbatim>\<open>buffer.add\<close> history.  The number of
  transitions added so far; and that every pending row is stored under the buffer id of
  the agent that acted in it, which is how the lane loop stores them.
\<close>

definition flushed :: "'a ma_state_scheme \<Rightarrow> nat" where
  "flushed s = length (concat (map snd (buffer s)))"

definition well_keyed :: "config \<Rightarrow> 'a ma_state_scheme \<Rightarrow> bool" where
  "well_keyed cfg s = (\<forall>k p. temp_data s k = Some p \<longrightarrow> buffer_id cfg p = k)"

text \<open>
  The two ways a transition \<open>fst xk\<close> is added under the buffer id \<open>snd xk\<close> by the lane
  of a row.  Either it is the row itself, as the environment returned it, and the agent
  that acted is also the next one to act: then its next observation is the one that
  followed its own action.  Or it is a pending row \<open>p\<close> of the agent that is next to act
  in the row, with the observation and action of \<open>p\<close> and the reward, next observation,
  flags and info of the row written over those of \<open>p\<close>: then its next observation is the
  one at which the agent of \<open>p\<close> acts again.
\<close>

definition own_outcome :: "config \<Rightarrow> transition \<Rightarrow> transition \<times> nat \<Rightarrow> bool" where
  "own_outcome cfg row xk =
     (fst xk = row \<and> snd xk = buffer_id cfg row \<and> buffer_id cfg row = next_buffer_id cfg row)"

definition completed_by ::
  "config \<Rightarrow> transition \<Rightarrow> transition \<Rightarrow> transition \<times> nat \<Rightarrow> bool" where
  "completed_by cfg row p xk =
     (fst xk = complete_pending p row \<and> snd xk = next_buffer_id cfg row \<and>
      buffer_id cfg p = snd xk)"

text \<open>
  The rows a lane drops without adding them.  A lane of an agent that is also next to act
  drops nothing.  Otherwise the lane's row is not stored when the done list of its
  environment is full or holds the agent (the done list is read after the lane has
  appended to it), and a row that is stored replaces the row that was pending for the
  agent, if there was one.  Without a done list for the environment the lane raises.
\<close>

definition lane_lost :: "config \<Rightarrow> transition \<Rightarrow> 'a ma_state_scheme \<Rightarrow> nat" where
  "lane_lost cfg row s =
     (if buffer_id cfg row = next_buffer_id cfg row then 0
      else
        (case done_agents_per_env s (env_id (info row)) of
           None \<Rightarrow> 0
         | Some d \<Rightarrow>
             let d1 = (if done_flag row then d @ [next_buffer_id cfg row] else d)
             in if length d1 \<noteq> agents_num cfg \<and> buffer_id cfg row \<notin> set d1
                then (if temp_data s (buffer_id cfg row) = None then 0 else 1)
                else 1))"

text \<open>
  The turns of one episode of environment \<open>e\<close>, one lane per tick: agent \<open>a\<close> acts first,
  each tick names the agent of the next one, and only the last tick may be done.
\<close>

fun episode_stream :: "nat \<Rightarrow> nat \<Rightarrow> transition list list \<Rightarrow> bool" where
  "episode_stream e a [] = True"
| "episode_stream e a (rows # script) =
     (case rows of
        [row] \<Rightarrow>
          env_id (info row) = e \<and> agent_id (obs row) = a \<and>
          (done_flag row \<longrightarrow> script = []) \<and>
          episode_stream e (agent_id (obs_next row)) script
      | _ \<Rightarrow> False)"

text \<open>
  One environment that is reset in the middle: agent \<open>A\<close> flushes a round, acts again and
  stays pending, agent \<open>B\<close> ends the episode with an explicit reset, and \<open>A\<close> opens
  the next episode.  And a collective collector with one pending row.
\<close>

definition restart_script :: "transition list list" where
  "restart_script =
     [[turn 0 0 0 0 False True False], [turn 0 0 1 1 False False False],
      [turn 0 1 1 2 True False True], [turn 0 0 1 3 False False False]]"

definition ce_pending :: "nat \<Rightarrow> transition \<Rightarrow> ce_state" where
  "ce_pending b p = (ce_reset (two_agents 1))\<lparr>temp_data := [b \<mapsto> p]\<rparr>"

text \<open>
  The entry a lane appends to \<^verbatim>\<open>done_envs\<close>: its index, its environment, and the
  position of the last row of the tick's batch so far.
\<close>

definition event_of :: "nat \<Rightarrow> transition \<Rightarrow> 'a ma_state_scheme \<Rightarrow> nat \<times> nat \<times> int" where
  "event_of i row s = (i, env_id (info row), int (length (experience_to_save s)) - 1)"

text \<open>
  A collective run that ends an episode in the middle of a joint round, and the two
  collectors at the end of a tick that recorded environment 0 as complete.
\<close>

definition open_round_script :: "transition list list" where
  "open_round_script =
     [[turn 0 0 0 0 False True False], [turn 0 0 1 1 False False False],
      [turn 0 1 0 2 True False True]]"

definition ma_completing :: ma_state where
  "ma_completing =
     (ma_pending 0 (turn 0 0 1 1 False False False))
       \<lparr>done_agents_per_env := [0 \<mapsto> [0]], done_envs := [(0, 0, - 1)], stats_bound := True\<rparr>"

definition ce_completing :: ce_state where
  "ce_completing =
     ce_round_open
       \<lparr>done_agents_per_env := [0 \<mapsto> [0]], done_envs := [(0, 0, - 1)], stats_bound := True\<rparr>"

text \<open>
  One tick of four environments: the lanes 1 and 3 end their episodes, the lanes 0 and 2
  go on.
\<close>

definition four_lanes :: "transition list" where
  "four_lanes =
     [turn 0 0 0 0 False True False, turn 1 0 0 0 True True True,
      turn 2 0 0 0 False True False, turn 3 0 0 0 True True True]"

text \<open>
  One tick of two environments in which both close a joint round of one agent.
\<close>

definition two_rounds :: "transition list" where
  "two_rounds = [turn 0 0 0 0 False True False, turn 1 0 0 0 False True False]"

text \<open>
  For the \<^verbatim>\<open>filling\<close> assertion: a row leaves the \<^verbatim>\<open>filling\<close> array of environment \<open>e\<close>
  alone when it is of another environment, or carries neither signal and no done flag
  (so that no snapshot and no reset of \<open>e\<close> can come from it).  Then one environment
  whose agent \<open>B\<close> hands over to an agent \<open>A\<close> that is done and acts twice; one whose
  agents alternate without any signal; and a collective collector in which the entry of
  \<open>A\<close> is filled.
\<close>

definition quiet_for :: "nat \<Rightarrow> transition \<Rightarrow> bool" where
  "quiet_for e row =
     (env_id (info row) = e \<longrightarrow>
        \<not> environment_step (info row) \<and> \<not> explicit_reset (info row) \<and> \<not> done_flag row)"

definition done_agent_script :: "transition list list" where
  "done_agent_script =
     [[turn 0 1 0 0 True False False], [turn 0 0 0 1 False False False],
      [turn 0 0 1 2 False False False]]"

definition alternating_script :: "transition list list" where
  "alternating_script =
     [[turn 0 0 1 0 False False False], [turn 0 1 0 1 False False False],
      [turn 0 0 1 2 False False False]]"

definition ce_filling_live :: ce_state where
  "ce_filling_live =
     (begin_collect [0] False (ce_reset (two_agents 1)))\<lparr>tbd_filling := [0 \<mapsto> [0, - 1]]\<rparr>"

text \<open>
  A lane closes a joint round with the buffer ids \<open>ids\<close>: they are, up to order, the live
  entries of a \<^verbatim>\<open>ready\<close> array of the lane's environment that has a live entry, which is
  the array the lane started with or, on \<^verbatim>\<open>environment_step\<close> or \<^verbatim>\<open>explicit_reset\<close>, the
  \<^verbatim>\<open>filling\<close> array with the acting agent's entry written, as the lane snapshots it; the
  lane appends them to the tick's batch and leaves the environment's accumulator, buffer
  ids and \<^verbatim>\<open>ready\<close> array empty.
\<close>

definition closes_round ::
  "config \<Rightarrow> transition \<Rightarrow> 'a ce_state_scheme \<Rightarrow> 'a ce_state_scheme \<Rightarrow> nat list \<Rightarrow> bool" where
  "closes_round cfg row c c' ids =
     (let e = env_id (info row); a = agent_id (obs row); b = buffer_id_of cfg e a in
      \<exists>r. (tbd_ready c e = Some r \<or>
            (environment_step (info row) \<or> explicit_reset (info row)) \<and>
            (\<exists>f d. tbd_filling c e = Some f \<and> done_agents_per_env c e = Some d \<and>
               r = f[a := (if b \<notin> set d then int b else - 1)])) \<and>
           live r \<noteq> [] \<and> mset (map int ids) = mset (live r) \<and>
           buffer_ids_to_save c' = buffer_ids_to_save c @ ids \<and>
           tbd_exps_to_save c' e = Some [] \<and>
           tbd_buffer_ids_to_save c' e = Some [] \<and>
           tbd_ready c' e = Some (empty_slots cfg))"

section \<open>Evaluation and frame lemmas\<close>

lemmas shared_defs = then_do_def buffer_id_of_def complete_pending_def mark_done_def
  store_pending_def begin_tick_def mask_out_def trim_def target_reached_def
  collect_targets_def begin_collect_def two_agents_def turn_def Let_def

lemmas ma_defs = ma_resolve_def ma_same_def ma_lane_def ma_flush_def ma_finish_def
  ma_tick_def ma_collect_def ma_reset_def

lemmas ce_defs = live_def empty_slots_def ce_mark_filling_def ce_boundary_def ce_resolve_def
  ce_same_def add_extra_info_def ce_flush_round_def ce_lane_def ce_flush_def ce_finish_def
  ce_tick_def ce_collect_def ce_reset_def

lemma then_do_Inr: "then_do r f = Inr y \<longleftrightarrow> (\<exists>x. r = Inr x \<and> f x = Inr y)"
  by (cases r) (simp_all add: then_do_def)

lemma then_do_Inl [simp]: "then_do (Inl e) f = Inl e"
  by (simp add: then_do_def)

lemma then_do_Inr_apply [simp]: "then_do (Inr x) f = f x"
  by (simp add: then_do_def)

lemma mark_done_frame:
  "mark_done cfg i row nb s = Inr s' \<Longrightarrow>
   \<exists>d de. s' = s\<lparr>done_agents_per_env := d, done_envs := de\<rparr>"
  by (auto simp: mark_done_def Let_def split: if_splits option.splits)
     (metis ma_state.surjective ma_state.update_convs(2,5))+

lemma store_pending_frame:
  "store_pending cfg row b nb s = Inr s' \<Longrightarrow> \<exists>t. s' = s\<lparr>temp_data := t\<rparr>"
  by (auto simp: store_pending_def split: if_splits option.splits intro: exI[of _ "temp_data s"])



lemma mark_done_fields:
  "mark_done cfg i row nb s = Inr s' \<Longrightarrow>
   temp_data s' = temp_data s \<and> experience_to_save s' = experience_to_save s \<and>
   buffer_ids_to_save s' = buffer_ids_to_save s \<and> buffer s' = buffer s \<and>
   stats_bound s' = stats_bound s \<and> ready_env_ids s' = ready_env_ids s \<and>
   step_count s' = step_count s \<and> episode_count s' = episode_count s \<and>
   warned s' = warned s \<and> ma_state.more s' = ma_state.more s"
  by (auto simp: mark_done_def Let_def split: if_splits option.splits)

lemma store_pending_fields:
  "store_pending cfg row b nb s = Inr s' \<Longrightarrow>
   done_agents_per_env s' = done_agents_per_env s \<and> done_envs s' = done_envs s \<and>
   experience_to_save s' = experience_to_save s \<and>
   buffer_ids_to_save s' = buffer_ids_to_save s \<and> buffer s' = buffer s \<and>
   stats_bound s' = stats_bound s \<and> ready_env_ids s' = ready_env_ids s \<and>
   step_count s' = step_count s \<and> episode_count s' = episode_count s \<and>
   warned s' = warned s \<and> ma_state.more s' = ma_state.more s"
  by (auto simp: store_pending_def split: if_splits option.splits)

lemma ma_resolve_fields [simp]:
  "buffer (ma_resolve row nb s) = buffer s"
  "stats_bound (ma_resolve row nb s) = stats_bound s"
  "ready_env_ids (ma_resolve row nb s) = ready_env_ids s"
  "step_count (ma_resolve row nb s) = step_count s"
  "episode_count (ma_resolve row nb s) = episode_count s"
  "warned (ma_resolve row nb s) = warned s"
  "done_agents_per_env (ma_resolve row nb s) = done_agents_per_env s"
  "done_envs (ma_resolve row nb s) = done_envs s"
  by (simp_all add: ma_resolve_def split: option.splits)

lemma ma_same_fields [simp]:
  "buffer (ma_same row b nb s) = buffer s"
  "stats_bound (ma_same row b nb s) = stats_bound s"
  "ready_env_ids (ma_same row b nb s) = ready_env_ids s"
  "step_count (ma_same row b nb s) = step_count s"
  "episode_count (ma_same row b nb s) = episode_count s"
  "warned (ma_same row b nb s) = warned s"
  "done_agents_per_env (ma_same row b nb s) = done_agents_per_env s"
  "done_envs (ma_same row b nb s) = done_envs s"
  "temp_data (ma_same row b nb s) = temp_data s"
  by (simp_all add: ma_same_def)

lemma ma_lane_fields:
  "ma_lane cfg i row s = Inr s' \<Longrightarrow>
   buffer s' = buffer s \<and> stats_bound s' = stats_bound s \<and>
   ready_env_ids s' = ready_env_ids s \<and> step_count s' = step_count s \<and>
   episode_count s' = episode_count s \<and> warned s' = warned s"
  by (auto simp: ma_lane_def then_do_Inr Let_def
      dest!: mark_done_fields store_pending_fields)

lemma ma_lanes_fields:
  "ma_lanes cfg i rows s = Inr s' \<Longrightarrow>
   buffer s' = buffer s \<and> stats_bound s' = stats_bound s \<and>
   ready_env_ids s' = ready_env_ids s \<and> step_count s' = step_count s \<and>
   episode_count s' = episode_count s \<and> warned s' = warned s"
proof (induction rows arbitrary: i s)
  case Nil
  then show ?case by simp
next
  case (Cons row rows)
  then obtain s1 where 1: "ma_lane cfg i row s = Inr s1" and 2: "ma_lanes cfg (Suc i) rows s1 = Inr s'"
    by (auto simp: then_do_Inr)
  from ma_lane_fields[OF 1] Cons.IH[OF 2] show ?case by simp
qed

lemma trim_fields:
  "trim ne loc s = Inr s' \<Longrightarrow>
   temp_data s' = temp_data s \<and> done_agents_per_env s' = done_agents_per_env s \<and>
   done_envs s' = done_envs s \<and> experience_to_save s' = experience_to_save s \<and>
   buffer_ids_to_save s' = buffer_ids_to_save s \<and> buffer s' = buffer s \<and>
   stats_bound s' = stats_bound s \<and> step_count s' = step_count s \<and>
   episode_count s' = episode_count s \<and> warned s' = warned s \<and>
   ma_state.more s' = ma_state.more s"
  by (auto simp: trim_def Let_def then_do_Inr split: option.splits if_splits)

lemma ma_finish_fields:
  "ma_finish ne s = Inr s' \<Longrightarrow>
   temp_data s' = temp_data s \<and>
   done_envs s' = done_envs s \<and> experience_to_save s' = experience_to_save s \<and>
   buffer_ids_to_save s' = buffer_ids_to_save s \<and> buffer s' = buffer s \<and>
   stats_bound s' = stats_bound s \<and> step_count s' = step_count s \<and>
   episode_count s' = episode_count s + length (done_envs s) \<and> warned s' = warned s \<and>
   ma_state.more s' = ma_state.more s"
  by (auto simp: ma_finish_def Let_def dest!: trim_fields split: if_splits)


lemma begin_tick_fields [simp]:
  "temp_data (begin_tick s) = temp_data s"
  "done_agents_per_env (begin_tick s) = done_agents_per_env s"
  "experience_to_save (begin_tick s) = []"
  "buffer_ids_to_save (begin_tick s) = []"
  "done_envs (begin_tick s) = []"
  "buffer (begin_tick s) = buffer s"
  "stats_bound (begin_tick s) = stats_bound s"
  "ready_env_ids (begin_tick s) = ready_env_ids s"
  "step_count (begin_tick s) = step_count s"
  "episode_count (begin_tick s) = episode_count s"
  "warned (begin_tick s) = warned s"
  "ma_state.more (begin_tick s) = ma_state.more s"
  by (simp_all add: begin_tick_def)

lemma begin_tick_ce_fields [simp]:
  "tbd_ready (begin_tick c) = tbd_ready c"
  "tbd_filling (begin_tick c) = tbd_filling c"
  "tbd_exps_to_save (begin_tick c) = tbd_exps_to_save c"
  "tbd_buffer_ids_to_save (begin_tick c) = tbd_buffer_ids_to_save c"
  by (simp_all add: begin_tick_def)

lemma ma_flush_fields [simp]:
  "temp_data (ma_flush s) = temp_data s"
  "done_agents_per_env (ma_flush s) = done_agents_per_env s"
  "experience_to_save (ma_flush s) = experience_to_save s"
  "buffer_ids_to_save (ma_flush s) = buffer_ids_to_save s"
  "done_envs (ma_flush s) = done_envs s"
  "ready_env_ids (ma_flush s) = ready_env_ids s"
  "episode_count (ma_flush s) = episode_count s"
  "step_count (ma_flush s) = step_count s + length (buffer_ids_to_save s)"
  "buffer (ma_flush s) =
     (if buffer_ids_to_save s = [] then buffer s
      else buffer s @ [(experience_to_save s, buffer_ids_to_save s)])"
  by (simp_all add: ma_flush_def)

lemma ma_tick_Inr:
  "ma_tick cfg ne rows s = Inr s' \<longleftrightarrow>
   (\<exists>s1. ma_lanes cfg 0 rows (begin_tick s) = Inr s1 \<and> ma_finish ne (ma_flush s1) = Inr s')"
  by (simp add: ma_tick_def then_do_Inr)

lemma ma_tick_step_count:
  assumes "ma_tick cfg ne rows s = Inr s'"
  shows "step_count s' = step_count s + length (buffer_ids_to_save s') \<and>
         buffer s' = (if buffer_ids_to_save s' = [] then buffer s
                      else buffer s @ [(experience_to_save s', buffer_ids_to_save s')])"
proof -
  from assms obtain s1 where 1: "ma_lanes cfg 0 rows (begin_tick s) = Inr s1"
    and 2: "ma_finish ne (ma_flush s1) = Inr s'"
    by (auto simp: ma_tick_Inr)
  from ma_lanes_fields[OF 1] ma_finish_fields[OF 2] show ?thesis by simp
qed

lemma ce_mark_filling_fields:
  "ce_mark_filling cfg row s = Inr s' \<Longrightarrow>
   temp_data s' = temp_data s \<and> done_agents_per_env s' = done_agents_per_env s \<and>
   done_envs s' = done_envs s \<and> experience_to_save s' = experience_to_save s \<and>
   buffer_ids_to_save s' = buffer_ids_to_save s \<and> buffer s' = buffer s \<and>
   stats_bound s' = stats_bound s \<and> ready_env_ids s' = ready_env_ids s \<and>
   step_count s' = step_count s \<and> episode_count s' = episode_count s \<and>
   warned s' = warned s \<and> tbd_ready s' = tbd_ready s \<and>
   tbd_exps_to_save s' = tbd_exps_to_save s \<and>
   tbd_buffer_ids_to_save s' = tbd_buffer_ids_to_save s"
  by (auto simp: ce_mark_filling_def Let_def split: option.splits if_splits)

lemma ce_boundary_fields:
  "ce_boundary cfg row s = Inr s' \<Longrightarrow>
   temp_data s' = temp_data s \<and> done_agents_per_env s' = done_agents_per_env s \<and>
   done_envs s' = done_envs s \<and> experience_to_save s' = experience_to_save s \<and>
   buffer_ids_to_save s' = buffer_ids_to_save s \<and> buffer s' = buffer s \<and>
   stats_bound s' = stats_bound s \<and> ready_env_ids s' = ready_env_ids s \<and>
   step_count s' = step_count s \<and> episode_count s' = episode_count s \<and>
   warned s' = warned s \<and>
   tbd_exps_to_save s' = tbd_exps_to_save s \<and>
   tbd_buffer_ids_to_save s' = tbd_buffer_ids_to_save s"
  by (auto simp: ce_boundary_def Let_def split: option.splits if_splits)

lemma ce_resolve_fields:
  "ce_resolve row nb s = Inr s' \<Longrightarrow>
   done_agents_per_env s' = done_agents_per_env s \<and>
   done_envs s' = done_envs s \<and> experience_to_save s' = experience_to_save s \<and>
   buffer_ids_to_save s' = buffer_ids_to_save s \<and> buffer s' = buffer s \<and>
   stats_bound s' = stats_bound s \<and> ready_env_ids s' = ready_env_ids s \<and>
   step_count s' = step_count s \<and> episode_count s' = episode_count s \<and>
   warned s' = warned s \<and> tbd_ready s' = tbd_ready s \<and> tbd_filling s' = tbd_filling s"
  by (auto simp: ce_resolve_def Let_def split: option.splits if_splits)

lemma ce_same_fields:
  "ce_same row b nb s = Inr s' \<Longrightarrow>
   done_agents_per_env s' = done_agents_per_env s \<and>
   done_envs s' = done_envs s \<and> experience_to_save s' = experience_to_save s \<and>
   buffer_ids_to_save s' = buffer_ids_to_save s \<and> buffer s' = buffer s \<and>
   stats_bound s' = stats_bound s \<and> ready_env_ids s' = ready_env_ids s \<and>
   step_count s' = step_count s \<and> episode_count s' = episode_count s \<and>
   warned s' = warned s \<and> tbd_ready s' = tbd_ready s \<and> tbd_filling s' = tbd_filling s"
  by (auto simp: ce_same_def Let_def split: option.splits if_splits)

lemma ce_flush_round_fields:
  "ce_flush_round cfg row s = Inr s' \<Longrightarrow>
   temp_data s' = temp_data s \<and> done_agents_per_env s' = done_agents_per_env s \<and>
   done_envs s' = done_envs s \<and> buffer s' = buffer s \<and>
   stats_bound s' = stats_bound s \<and> ready_env_ids s' = ready_env_ids s \<and>
   episode_count s' = episode_count s \<and>
   warned s' = warned s \<and> tbd_filling s' = tbd_filling s"
  by (auto simp: ce_flush_round_def Let_def split: option.splits if_splits)

lemma mark_done_ce_fields:
  "mark_done cfg i row nb s = Inr s' \<Longrightarrow>
   tbd_ready s' = tbd_ready s \<and> tbd_filling s' = tbd_filling s \<and>
   tbd_exps_to_save s' = tbd_exps_to_save s \<and>
   tbd_buffer_ids_to_save s' = tbd_buffer_ids_to_save s"
  by (auto simp: mark_done_def Let_def split: if_splits option.splits)

lemma store_pending_ce_fields:
  "store_pending cfg row b nb s = Inr s' \<Longrightarrow>
   tbd_ready s' = tbd_ready s \<and> tbd_filling s' = tbd_filling s \<and>
   tbd_exps_to_save s' = tbd_exps_to_save s \<and>
   tbd_buffer_ids_to_save s' = tbd_buffer_ids_to_save s"
  by (auto simp: store_pending_def split: if_splits option.splits)

text \<open>What a matching round does, in one place.\<close>

lemma ce_flush_round_cases:
  assumes "ce_flush_round cfg row s = Inr s'"
  shows "(experience_to_save s' = experience_to_save s \<and>
          buffer_ids_to_save s' = buffer_ids_to_save s \<and>
          step_count s' = step_count s \<and> tbd_ready s' = tbd_ready s \<and>
          tbd_exps_to_save s' = tbd_exps_to_save s \<and>
          tbd_buffer_ids_to_save s' = tbd_buffer_ids_to_save s) \<or>
         (\<exists>r ids xs. tbd_ready s (env_id (info row)) = Some r \<and>
            tbd_buffer_ids_to_save s (env_id (info row)) = Some ids \<and>
            tbd_exps_to_save s (env_id (info row)) = Some xs \<and>
            live r \<noteq> [] \<and> sort (live r) = sort (map int ids) \<and> xs \<noteq> [] \<and>
            experience_to_save s' = experience_to_save s @ add_extra_info cfg (buffer s) r xs \<and>
            buffer_ids_to_save s' = buffer_ids_to_save s @ ids \<and>
            step_count s' = step_count s + 1 \<and>
            tbd_ready s' = (tbd_ready s)(env_id (info row) \<mapsto> empty_slots cfg) \<and>
            tbd_exps_to_save s' = (tbd_exps_to_save s)(env_id (info row) \<mapsto> []) \<and>
            tbd_buffer_ids_to_save s' = (tbd_buffer_ids_to_save s)(env_id (info row) \<mapsto> []))"
  using assms
  by (auto simp: ce_flush_round_def Let_def split: option.splits if_splits)

lemma ce_lane_Inr:
  "ce_lane cfg i row s = Inr s' \<longleftrightarrow>
   (\<exists>s1 s2 s3 s4 s5 s6.
      ce_mark_filling cfg row s = Inr s1 \<and> ce_boundary cfg row s1 = Inr s2 \<and>
      ce_resolve row (buffer_id_of cfg (env_id (info row)) (agent_id (obs_next row))) s2 = Inr s3 \<and>
      ce_same row (buffer_id_of cfg (env_id (info row)) (agent_id (obs row)))
        (buffer_id_of cfg (env_id (info row)) (agent_id (obs_next row))) s3 = Inr s4 \<and>
      ce_flush_round cfg row s4 = Inr s5 \<and>
      mark_done cfg i row (buffer_id_of cfg (env_id (info row)) (agent_id (obs_next row))) s5 = Inr s6 \<and>
      store_pending cfg row (buffer_id_of cfg (env_id (info row)) (agent_id (obs row)))
        (buffer_id_of cfg (env_id (info row)) (agent_id (obs_next row))) s6 = Inr s')"
  by (simp add: ce_lane_def Let_def then_do_Inr)


lemma ce_lane_step:
  assumes "ce_lane cfg i row c = Inr c1"
  shows "(buffer_ids_to_save c1 = buffer_ids_to_save c \<and> step_count c1 = step_count c) \<or>
         (\<exists>ids. ids \<noteq> [] \<and> buffer_ids_to_save c1 = buffer_ids_to_save c @ ids \<and>
                step_count c1 = step_count c + 1)"
proof -
  from assms obtain s1 s2 s3 s4 s5 s6 where
    1: "ce_mark_filling cfg row c = Inr s1" and 2: "ce_boundary cfg row s1 = Inr s2" and
    3: "ce_resolve row (buffer_id_of cfg (env_id (info row)) (agent_id (obs_next row))) s2 = Inr s3" and
    4: "ce_same row (buffer_id_of cfg (env_id (info row)) (agent_id (obs row)))
        (buffer_id_of cfg (env_id (info row)) (agent_id (obs_next row))) s3 = Inr s4" and
    5: "ce_flush_round cfg row s4 = Inr s5" and
    6: "mark_done cfg i row (buffer_id_of cfg (env_id (info row)) (agent_id (obs_next row))) s5 = Inr s6" and
    7: "store_pending cfg row (buffer_id_of cfg (env_id (info row)) (agent_id (obs row)))
        (buffer_id_of cfg (env_id (info row)) (agent_id (obs_next row))) s6 = Inr c1"
    by (auto simp: ce_lane_Inr)
  have pre: "buffer_ids_to_save s4 = buffer_ids_to_save c" "step_count s4 = step_count c"
    using ce_mark_filling_fields[OF 1] ce_boundary_fields[OF 2] ce_resolve_fields[OF 3]
      ce_same_fields[OF 4] by simp_all
  have post: "buffer_ids_to_save c1 = buffer_ids_to_save s5" "step_count c1 = step_count s5"
    using mark_done_fields[OF 6] store_pending_fields[OF 7] by simp_all
  from ce_flush_round_cases[OF 5] show ?thesis
  proof
    assume "experience_to_save s5 = experience_to_save s4 \<and>
          buffer_ids_to_save s5 = buffer_ids_to_save s4 \<and>
          step_count s5 = step_count s4 \<and> tbd_ready s5 = tbd_ready s4 \<and>
          tbd_exps_to_save s5 = tbd_exps_to_save s4 \<and>
          tbd_buffer_ids_to_save s5 = tbd_buffer_ids_to_save s4"
    with pre post show ?thesis by simp
  next
    assume "\<exists>r ids xs. tbd_ready s4 (env_id (info row)) = Some r \<and>
            tbd_buffer_ids_to_save s4 (env_id (info row)) = Some ids \<and>
            tbd_exps_to_save s4 (env_id (info row)) = Some xs \<and>
            live r \<noteq> [] \<and> sort (live r) = sort (map int ids) \<and> xs \<noteq> [] \<and>
            experience_to_save s5 = experience_to_save s4 @ add_extra_info cfg (buffer s4) r xs \<and>
            buffer_ids_to_save s5 = buffer_ids_to_save s4 @ ids \<and>
            step_count s5 = step_count s4 + 1 \<and>
            tbd_ready s5 = (tbd_ready s4)(env_id (info row) \<mapsto> empty_slots cfg) \<and>
            tbd_exps_to_save s5 = (tbd_exps_to_save s4)(env_id (info row) \<mapsto> []) \<and>
            tbd_buffer_ids_to_save s5 = (tbd_buffer_ids_to_save s4)(env_id (info row) \<mapsto> [])"
    then obtain r ids where r: "live r \<noteq> []" "sort (live r) = sort (map int ids)"
      "buffer_ids_to_save s5 = buffer_ids_to_save s4 @ ids" "step_count s5 = step_count s4 + 1"
      by blast
    from arg_cong[OF r(2), of length] r(1) have "ids \<noteq> []" by auto
    with r pre post show ?thesis by auto
  qed
qed

lemma ce_lane_fields:
  assumes "ce_lane cfg i row c = Inr c1"
  shows "buffer c1 = buffer c \<and> stats_bound c1 = stats_bound c \<and>
         ready_env_ids c1 = ready_env_ids c \<and> episode_count c1 = episode_count c \<and>
         warned c1 = warned c"
proof -
  from assms obtain s1 s2 s3 s4 s5 s6 where
    1: "ce_mark_filling cfg row c = Inr s1" and 2: "ce_boundary cfg row s1 = Inr s2" and
    3: "ce_resolve row (buffer_id_of cfg (env_id (info row)) (agent_id (obs_next row))) s2 = Inr s3" and
    4: "ce_same row (buffer_id_of cfg (env_id (info row)) (agent_id (obs row)))
        (buffer_id_of cfg (env_id (info row)) (agent_id (obs_next row))) s3 = Inr s4" and
    5: "ce_flush_round cfg row s4 = Inr s5" and
    6: "mark_done cfg i row (buffer_id_of cfg (env_id (info row)) (agent_id (obs_next row))) s5 = Inr s6" and
    7: "store_pending cfg row (buffer_id_of cfg (env_id (info row)) (agent_id (obs row)))
        (buffer_id_of cfg (env_id (info row)) (agent_id (obs_next row))) s6 = Inr c1"
    by (auto simp: ce_lane_Inr)
  show ?thesis
    using ce_mark_filling_fields[OF 1] ce_boundary_fields[OF 2] ce_resolve_fields[OF 3]
      ce_same_fields[OF 4] ce_flush_round_fields[OF 5] mark_done_fields[OF 6]
      store_pending_fields[OF 7] by simp
qed

lemma ce_lanes_fields:
  "ce_lanes cfg i rows c = Inr c' \<Longrightarrow>
   buffer c' = buffer c \<and> stats_bound c' = stats_bound c \<and>
   ready_env_ids c' = ready_env_ids c \<and> episode_count c' = episode_count c \<and>
   warned c' = warned c"
proof (induction rows arbitrary: i c)
  case Nil
  then show ?case by simp
next
  case (Cons row rows)
  then obtain c1 where 1: "ce_lane cfg i row c = Inr c1" and 2: "ce_lanes cfg (Suc i) rows c1 = Inr c'"
    by (auto simp: then_do_Inr)
  from ce_lane_fields[OF 1] Cons.IH[OF 2] show ?case by simp
qed

lemma ce_lanes_rounds:
  "ce_lanes cfg i rows c = Inr c' \<Longrightarrow>
   \<exists>rounds. buffer_ids_to_save c' = buffer_ids_to_save c @ concat rounds \<and> [] \<notin> set rounds \<and>
      step_count c' = step_count c + length rounds \<and> length rounds \<le> length rows"
proof (induction rows arbitrary: i c)
  case Nil
  then show ?case by (auto intro: exI[of _ "[]"])
next
  case (Cons row rows)
  then obtain c1 where 1: "ce_lane cfg i row c = Inr c1" and 2: "ce_lanes cfg (Suc i) rows c1 = Inr c'"
    by (auto simp: then_do_Inr)
  from Cons.IH[OF 2] obtain rounds where
    r: "buffer_ids_to_save c' = buffer_ids_to_save c1 @ concat rounds" "[] \<notin> set rounds"
      "step_count c' = step_count c1 + length rounds" "length rounds \<le> length rows"
    by blast
  from ce_lane_step[OF 1] show ?case
  proof
    assume "buffer_ids_to_save c1 = buffer_ids_to_save c \<and> step_count c1 = step_count c"
    with r show ?thesis by (intro exI[of _ rounds]) simp
  next
    assume "\<exists>ids. ids \<noteq> [] \<and> buffer_ids_to_save c1 = buffer_ids_to_save c @ ids \<and>
                step_count c1 = step_count c + 1"
    then obtain ids where "ids \<noteq> []" "buffer_ids_to_save c1 = buffer_ids_to_save c @ ids"
      "step_count c1 = step_count c + 1" by blast
    with r show ?thesis by (intro exI[of _ "ids # rounds"]) simp
  qed
qed

lemma ce_flush_fields [simp]:
  "temp_data (ce_flush s) = temp_data s"
  "done_agents_per_env (ce_flush s) = done_agents_per_env s"
  "experience_to_save (ce_flush s) = experience_to_save s"
  "buffer_ids_to_save (ce_flush s) = buffer_ids_to_save s"
  "done_envs (ce_flush s) = done_envs s"
  "ready_env_ids (ce_flush s) = ready_env_ids s"
  "episode_count (ce_flush s) = episode_count s"
  "step_count (ce_flush s) = step_count s"
  "tbd_ready (ce_flush s) = tbd_ready s"
  "tbd_filling (ce_flush s) = tbd_filling s"
  "tbd_exps_to_save (ce_flush s) = tbd_exps_to_save s"
  "tbd_buffer_ids_to_save (ce_flush s) = tbd_buffer_ids_to_save s"
  "buffer (ce_flush s) =
     (if buffer_ids_to_save s = [] then buffer s
      else buffer s @ [(experience_to_save s, buffer_ids_to_save s)])"
  by (simp_all add: ce_flush_def)

lemma trim_ce_fields:
  "trim ne loc s = Inr s' \<Longrightarrow>
   temp_data s' = temp_data s \<and> done_agents_per_env s' = done_agents_per_env s \<and>
   done_envs s' = done_envs s \<and> experience_to_save s' = experience_to_save s \<and>
   buffer_ids_to_save s' = buffer_ids_to_save s \<and> buffer s' = buffer s \<and>
   stats_bound s' = stats_bound s \<and> step_count s' = step_count s \<and>
   episode_count s' = episode_count s \<and> warned s' = warned s \<and>
   tbd_ready s' = tbd_ready s \<and> tbd_filling s' = tbd_filling s \<and>
   tbd_exps_to_save s' = tbd_exps_to_save s \<and>
   tbd_buffer_ids_to_save s' = tbd_buffer_ids_to_save s"
  by (auto simp: trim_def Let_def then_do_Inr split: option.splits if_splits)

lemma ce_finish_fields:
  "ce_finish cfg ne s = Inr s' \<Longrightarrow>
   temp_data s' = temp_data s \<and>
   done_envs s' = done_envs s \<and> experience_to_save s' = experience_to_save s \<and>
   buffer_ids_to_save s' = buffer_ids_to_save s \<and> buffer s' = buffer s \<and>
   stats_bound s' = stats_bound s \<and> step_count s' = step_count s \<and>
   episode_count s' = episode_count s + length (done_envs s) \<and> warned s' = warned s \<and>
   tbd_exps_to_save s' = tbd_exps_to_save s \<and>
   tbd_buffer_ids_to_save s' = tbd_buffer_ids_to_save s"
  by (auto simp: ce_finish_def Let_def dest!: trim_ce_fields split: if_splits)

lemma ce_tick_Inr:
  "ce_tick cfg ne rows s = Inr s' \<longleftrightarrow>
   (\<exists>s1. ce_lanes cfg 0 rows (begin_tick s) = Inr s1 \<and> ce_finish cfg ne (ce_flush s1) = Inr s')"
  by (simp add: ce_tick_def then_do_Inr)

lemma sum_case_obtain:
  "(case r of Inl e \<Rightarrow> False | Inr x \<Rightarrow> P x) \<Longrightarrow> \<exists>x. r = Inr x \<and> P x"
  by (cases r) auto

lemma ma_lane_appends:
  assumes "ma_lane cfg i row s = Inr s'"
  shows "\<exists>xs ids. experience_to_save s' = experience_to_save s @ xs \<and>
           buffer_ids_to_save s' = buffer_ids_to_save s @ ids \<and> length xs = length ids \<and>
           length xs \<le> 2 \<and>
           (buffer_id_of cfg (env_id (info row)) (agent_id (obs row)) =
            buffer_id_of cfg (env_id (info row)) (agent_id (obs_next row)) \<longrightarrow>
              xs \<noteq> [] \<and> last xs = row \<and>
              last ids = buffer_id_of cfg (env_id (info row)) (agent_id (obs row)))"
  using assms
  by (auto simp: ma_lane_def then_do_Inr Let_def ma_resolve_def ma_same_def
      dest!: mark_done_fields store_pending_fields split: option.splits)

lemma ma_lane_pending_none:
  assumes "ma_lane cfg i row s = Inr s'"
    and "buffer_id_of cfg (env_id (info row)) (agent_id (obs row)) =
         buffer_id_of cfg (env_id (info row)) (agent_id (obs_next row))"
  shows "temp_data s' (buffer_id_of cfg (env_id (info row)) (agent_id (obs row))) = None"
  using assms
  by (auto simp: ma_lane_def then_do_Inr Let_def ma_resolve_def ma_same_def store_pending_def
      dest!: mark_done_fields split: option.splits)

lemma last_zip_mem:
  "xs \<noteq> [] \<Longrightarrow> length xs = length ys \<Longrightarrow> (last xs, last ys) \<in> set (zip xs ys)"
  by (induction xs ys rule: list_induct2') auto

lemma ma_lanes_appends:
  "ma_lanes cfg i rows s = Inr s' \<Longrightarrow>
   \<exists>xs ids. experience_to_save s' = experience_to_save s @ xs \<and>
      buffer_ids_to_save s' = buffer_ids_to_save s @ ids \<and> length xs = length ids \<and>
      (\<forall>k<length rows.
         buffer_id_of cfg (env_id (info (rows ! k))) (agent_id (obs (rows ! k))) =
         buffer_id_of cfg (env_id (info (rows ! k))) (agent_id (obs_next (rows ! k))) \<longrightarrow>
         (rows ! k, buffer_id_of cfg (env_id (info (rows ! k))) (agent_id (obs (rows ! k))))
           \<in> set (zip xs ids))"
proof (induction rows arbitrary: i s)
  case Nil
  then show ?case by simp
next
  case (Cons row rows)
  then obtain s1 where 1: "ma_lane cfg i row s = Inr s1" and 2: "ma_lanes cfg (Suc i) rows s1 = Inr s'"
    by (auto simp: then_do_Inr)
  from ma_lane_appends[OF 1] obtain xs1 ids1 where a:
    "experience_to_save s1 = experience_to_save s @ xs1"
    "buffer_ids_to_save s1 = buffer_ids_to_save s @ ids1" "length xs1 = length ids1"
    "buffer_id_of cfg (env_id (info row)) (agent_id (obs row)) =
       buffer_id_of cfg (env_id (info row)) (agent_id (obs_next row)) \<longrightarrow>
       xs1 \<noteq> [] \<and> last xs1 = row \<and>
       last ids1 = buffer_id_of cfg (env_id (info row)) (agent_id (obs row))"
    by blast
  from Cons.IH[OF 2] obtain xs2 ids2 where b:
    "experience_to_save s' = experience_to_save s1 @ xs2"
    "buffer_ids_to_save s' = buffer_ids_to_save s1 @ ids2" "length xs2 = length ids2"
    "\<forall>k<length rows.
         buffer_id_of cfg (env_id (info (rows ! k))) (agent_id (obs (rows ! k))) =
         buffer_id_of cfg (env_id (info (rows ! k))) (agent_id (obs_next (rows ! k))) \<longrightarrow>
         (rows ! k, buffer_id_of cfg (env_id (info (rows ! k))) (agent_id (obs (rows ! k))))
           \<in> set (zip xs2 ids2)"
    by blast
  have z: "set (zip (xs1 @ xs2) (ids1 @ ids2)) = set (zip xs1 ids1) \<union> set (zip xs2 ids2)"
    using a(3) by simp
  have "\<forall>k<length (row # rows).
         buffer_id_of cfg (env_id (info ((row # rows) ! k))) (agent_id (obs ((row # rows) ! k))) =
         buffer_id_of cfg (env_id (info ((row # rows) ! k))) (agent_id (obs_next ((row # rows) ! k))) \<longrightarrow>
         ((row # rows) ! k, buffer_id_of cfg (env_id (info ((row # rows) ! k))) (agent_id (obs ((row # rows) ! k))))
           \<in> set (zip (xs1 @ xs2) (ids1 @ ids2))"
  proof (intro allI impI)
    fix k
    assume k: "k < length (row # rows)"
      and e: "buffer_id_of cfg (env_id (info ((row # rows) ! k))) (agent_id (obs ((row # rows) ! k))) =
         buffer_id_of cfg (env_id (info ((row # rows) ! k))) (agent_id (obs_next ((row # rows) ! k)))"
    show "((row # rows) ! k, buffer_id_of cfg (env_id (info ((row # rows) ! k))) (agent_id (obs ((row # rows) ! k))))
           \<in> set (zip (xs1 @ xs2) (ids1 @ ids2))"
    proof (cases k)
      case 0
      with e a(4) have "xs1 \<noteq> []" "last xs1 = row"
        "last ids1 = buffer_id_of cfg (env_id (info row)) (agent_id (obs row))" by simp_all
      with last_zip_mem[OF this(1) a(3)] 0 z show ?thesis by simp
    next
      case (Suc j)
      with k e b(4) z show ?thesis by simp
    qed
  qed
  with a b show ?case
    by (intro exI[of _ "xs1 @ xs2"] exI[of _ "ids1 @ ids2"]) simp
qed

lemma ma_tick_same_agent:
  assumes "ma_tick cfg ne rows s = Inr t" and "k < length rows"
    and "buffer_id_of cfg (env_id (info (rows ! k))) (agent_id (obs (rows ! k))) =
         buffer_id_of cfg (env_id (info (rows ! k))) (agent_id (obs_next (rows ! k)))"
  shows "\<exists>xs ids. buffer t = buffer s @ [(xs, ids)] \<and>
           (rows ! k, buffer_id_of cfg (env_id (info (rows ! k))) (agent_id (obs (rows ! k))))
             \<in> set (zip xs ids)"
proof -
  from assms(1) obtain s1 where 1: "ma_lanes cfg 0 rows (begin_tick s) = Inr s1"
    and 2: "ma_finish ne (ma_flush s1) = Inr t"
    by (auto simp: ma_tick_Inr)
  from ma_lanes_appends[OF 1] assms(2,3) obtain xs ids where
    a: "experience_to_save s1 = xs" "buffer_ids_to_save s1 = ids"
      "(rows ! k, buffer_id_of cfg (env_id (info (rows ! k))) (agent_id (obs (rows ! k))))
             \<in> set (zip xs ids)"
    by auto
  then have "ids \<noteq> []" by auto
  with a ma_lanes_fields[OF 1] ma_finish_fields[OF 2] show ?thesis by auto
qed

lemma ma_resolve_count:
  assumes "finite (dom (temp_data s))"
  shows "finite (dom (temp_data (ma_resolve row nb s))) \<and>
         length (buffer_ids_to_save (ma_resolve row nb s)) + card (dom (temp_data (ma_resolve row nb s)))
           = length (buffer_ids_to_save s) + card (dom (temp_data s))"
proof (cases "temp_data s nb")
  case None
  with assms show ?thesis by (simp add: ma_resolve_def)
next
  case (Some p)
  then have "nb \<in> dom (temp_data s)" by auto
  with assms have "card (dom (temp_data s) - {nb}) + 1 = card (dom (temp_data s))"
    using card_Suc_Diff1[of "dom (temp_data s)" nb] by simp
  with Some assms show ?thesis by (simp add: ma_resolve_def)
qed

lemma returned_case_obtain:
  "(case r of Returned u \<Rightarrow> P u | _ \<Rightarrow> False) \<Longrightarrow> \<exists>u. r = Returned u \<and> P u"
  by (cases r) auto

lemma running_case_obtain:
  "(case r of Running u \<Rightarrow> P u | _ \<Rightarrow> False) \<Longrightarrow> \<exists>u. r = Running u \<and> P u"
  by (cases r) auto

lemma then_do_Inl_iff:
  "then_do r f = Inl e \<longleftrightarrow> r = Inl e \<or> (\<exists>x. r = Inr x \<and> f x = Inl e)"
  by (cases r) (simp_all add: then_do_def)

lemma mark_done_Inl: "mark_done cfg i row nb s = Inl e \<Longrightarrow> e = KeyError"
  by (auto simp: mark_done_def Let_def split: if_splits option.splits)

lemma store_pending_Inl: "store_pending cfg row b nb s = Inl e \<Longrightarrow> e = KeyError"
  by (auto simp: store_pending_def split: if_splits option.splits)

lemma ma_lane_Inl: "ma_lane cfg i row s = Inl e \<Longrightarrow> e = KeyError"
  by (auto simp: ma_lane_def Let_def then_do_Inl_iff dest: mark_done_Inl store_pending_Inl)

lemma store_pending_stores:
  assumes "store_pending cfg row b nb s = Inr s'" and "b \<noteq> nb"
    and "done_agents_per_env s' (env_id (info row)) = Some d"
    and "length d \<noteq> agents_num cfg" and "b \<notin> set d"
  shows "temp_data s' b = Some row"
  using assms by (auto simp: store_pending_def split: if_splits option.splits)

lemma ma_lane_stores:
  assumes "ma_lane cfg i row s = Inr s'" and "buffer_id cfg row \<noteq> next_buffer_id cfg row"
    and "done_agents_per_env s' (env_id (info row)) = Some d"
    and "length d \<noteq> agents_num cfg" and "buffer_id cfg row \<notin> set d"
  shows "temp_data s' (buffer_id cfg row) = Some row"
proof -
  from assms(1) obtain s3 where
    "store_pending cfg row (buffer_id cfg row) (next_buffer_id cfg row) s3 = Inr s'"
    by (auto simp: ma_lane_def Let_def then_do_Inr)
  from store_pending_stores[OF this assms(2-)] show ?thesis .
qed

lemma ce_lane_stores:
  assumes "ce_lane cfg i row c = Inr c'" and "buffer_id cfg row \<noteq> next_buffer_id cfg row"
    and "done_agents_per_env c' (env_id (info row)) = Some d"
    and "length d \<noteq> agents_num cfg" and "buffer_id cfg row \<notin> set d"
  shows "temp_data c' (buffer_id cfg row) = Some row"
proof -
  from assms(1) obtain s6 where
    "store_pending cfg row (buffer_id cfg row) (next_buffer_id cfg row) s6 = Inr c'"
    by (auto simp: ce_lane_Inr)
  from store_pending_stores[OF this assms(2-)] show ?thesis .
qed

lemma foldl_upd_apply:
  "foldl (\<lambda>m e. m(e \<mapsto> v)) m es k = (if k \<in> set es then Some v else m k)"
  by (induction es arbitrary: m) auto

lemma mark_done_event:
  assumes "mark_done cfg i row nb s = Inr s'" and "done_flag row"
  shows "\<exists>d. done_agents_per_env s (env_id (info row)) = Some d \<and>
           done_agents_per_env s' = (done_agents_per_env s)(env_id (info row) \<mapsto> d @ [nb]) \<and>
           (Suc (length d) = agents_num cfg \<or> explicit_reset (info row) \<longrightarrow>
              done_envs s' = done_envs s @ [event_of i row s']) \<and>
           (\<not> (Suc (length d) = agents_num cfg \<or> explicit_reset (info row)) \<longrightarrow>
              done_envs s' = done_envs s)"
  using assms by (auto simp: mark_done_def Let_def event_of_def split: if_splits option.splits)

lemma mark_done_no_event:
  assumes "mark_done cfg i row nb s = Inr s'" and "\<not> done_flag row"
  shows "done_agents_per_env s' = done_agents_per_env s \<and> done_envs s' = done_envs s"
  using assms by (auto simp: mark_done_def)

text \<open>What one lane does to the done list and to \<^verbatim>\<open>done_envs\<close>, from the two facts above.\<close>

lemma lane_event:
  assumes "mark_done cfg i row (next_buffer_id cfg row) s2 = Inr s3"
    and "done_agents_per_env s2 = done_agents_per_env s" and "done_envs s2 = done_envs s"
    and "done_agents_per_env s' = done_agents_per_env s3" and "done_envs s' = done_envs s3"
    and "experience_to_save s' = experience_to_save s3"
  shows "(done_flag row \<longrightarrow>
            (\<exists>d. done_agents_per_env s (env_id (info row)) = Some d \<and>
               done_agents_per_env s' =
                 (done_agents_per_env s)(env_id (info row) \<mapsto> d @ [next_buffer_id cfg row]))) \<and>
         (\<not> done_flag row \<longrightarrow> done_agents_per_env s' = done_agents_per_env s) \<and>
         (done_envs s' = done_envs s @ [event_of i row s'] \<or> done_envs s' = done_envs s) \<and>
         (done_envs s' = done_envs s @ [event_of i row s'] \<longleftrightarrow>
            done_flag row \<and>
            (\<exists>d. done_agents_per_env s' (env_id (info row)) = Some d \<and>
               (length d = agents_num cfg \<or> explicit_reset (info row))))"
proof (cases "done_flag row")
  case False
  from mark_done_no_event[OF assms(1) False] assms(2-) False show ?thesis by simp
next
  case True
  from mark_done_event[OF assms(1) True] obtain d where d:
    "done_agents_per_env s2 (env_id (info row)) = Some d"
    "done_agents_per_env s3 = (done_agents_per_env s2)(env_id (info row) \<mapsto> d @ [next_buffer_id cfg row])"
    "Suc (length d) = agents_num cfg \<or> explicit_reset (info row) \<longrightarrow>
              done_envs s3 = done_envs s2 @ [event_of i row s3]"
    "\<not> (Suc (length d) = agents_num cfg \<or> explicit_reset (info row)) \<longrightarrow>
              done_envs s3 = done_envs s2"
    by blast
  have e: "event_of i row s' = event_of i row s3" using assms(6) by (simp add: event_of_def)
  show ?thesis
  proof (cases "Suc (length d) = agents_num cfg \<or> explicit_reset (info row)")
    case c: True
    with d True assms(2-5) e show ?thesis by auto
  next
    case c: False
    with d True assms(2-5) e show ?thesis by auto
  qed
qed

lemma ma_lane_event:
  assumes "ma_lane cfg i row s = Inr s'"
  shows "(done_flag row \<longrightarrow>
            (\<exists>d. done_agents_per_env s (env_id (info row)) = Some d \<and>
               done_agents_per_env s' =
                 (done_agents_per_env s)(env_id (info row) \<mapsto> d @ [next_buffer_id cfg row]))) \<and>
         (\<not> done_flag row \<longrightarrow> done_agents_per_env s' = done_agents_per_env s) \<and>
         (done_envs s' = done_envs s @ [event_of i row s'] \<or> done_envs s' = done_envs s) \<and>
         (done_envs s' = done_envs s @ [event_of i row s'] \<longleftrightarrow>
            done_flag row \<and>
            (\<exists>d. done_agents_per_env s' (env_id (info row)) = Some d \<and>
               (length d = agents_num cfg \<or> explicit_reset (info row))))"
proof -
  let ?b = "buffer_id cfg row" and ?nb = "next_buffer_id cfg row"
  let ?s2 = "ma_same row ?b ?nb (ma_resolve row ?nb s)"
  from assms obtain s3 where 3: "mark_done cfg i row ?nb ?s2 = Inr s3"
    and 4: "store_pending cfg row ?b ?nb s3 = Inr s'"
    by (auto simp: ma_lane_def Let_def then_do_Inr)
  have a: "done_agents_per_env ?s2 = done_agents_per_env s" "done_envs ?s2 = done_envs s"
    by simp_all
  have b: "done_agents_per_env s' = done_agents_per_env s3" "done_envs s' = done_envs s3"
    "experience_to_save s' = experience_to_save s3"
    using store_pending_fields[OF 4] by simp_all
  from lane_event[OF 3 a b] show ?thesis .
qed

lemma ce_lane_event:
  assumes "ce_lane cfg i row c = Inr c'"
  shows "(done_flag row \<longrightarrow>
            (\<exists>d. done_agents_per_env c (env_id (info row)) = Some d \<and>
               done_agents_per_env c' =
                 (done_agents_per_env c)(env_id (info row) \<mapsto> d @ [next_buffer_id cfg row]))) \<and>
         (\<not> done_flag row \<longrightarrow> done_agents_per_env c' = done_agents_per_env c) \<and>
         (done_envs c' = done_envs c @ [event_of i row c'] \<or> done_envs c' = done_envs c) \<and>
         (done_envs c' = done_envs c @ [event_of i row c'] \<longleftrightarrow>
            done_flag row \<and>
            (\<exists>d. done_agents_per_env c' (env_id (info row)) = Some d \<and>
               (length d = agents_num cfg \<or> explicit_reset (info row))))"
proof -
  from assms obtain s1 s2 s3 s4 s5 s6 where
    1: "ce_mark_filling cfg row c = Inr s1" and 2: "ce_boundary cfg row s1 = Inr s2" and
    3: "ce_resolve row (next_buffer_id cfg row) s2 = Inr s3" and
    4: "ce_same row (buffer_id cfg row) (next_buffer_id cfg row) s3 = Inr s4" and
    5: "ce_flush_round cfg row s4 = Inr s5" and
    6: "mark_done cfg i row (next_buffer_id cfg row) s5 = Inr s6" and
    7: "store_pending cfg row (buffer_id cfg row) (next_buffer_id cfg row) s6 = Inr c'"
    by (auto simp: ce_lane_Inr)
  have a: "done_agents_per_env s5 = done_agents_per_env c" "done_envs s5 = done_envs c"
    using ce_mark_filling_fields[OF 1] ce_boundary_fields[OF 2] ce_resolve_fields[OF 3]
      ce_same_fields[OF 4] ce_flush_round_fields[OF 5] by simp_all
  have b: "done_agents_per_env c' = done_agents_per_env s6" "done_envs c' = done_envs s6"
    "experience_to_save c' = experience_to_save s6"
    using store_pending_fields[OF 7] by simp_all
  from lane_event[OF 6 a b] show ?thesis .
qed

lemma ma_finish_cleared:
  assumes "ma_finish ne s = Inr t"
  shows "done_agents_per_env t k =
           (if k \<in> (\<lambda>ev. fst (snd ev)) ` set (done_envs s) then Some []
            else done_agents_per_env s k)"
proof (cases "done_envs s = []")
  case True
  with assms show ?thesis by (auto simp: ma_finish_def)
next
  case False
  with assms obtain s1 where 1: "trim ne (map fst (done_envs s)) s1 = Inr t"
    and 2: "done_agents_per_env s1 =
      foldl (\<lambda>m e. m(e \<mapsto> [])) (done_agents_per_env s) (map (\<lambda>d. fst (snd d)) (done_envs s))"
    by (auto simp: ma_finish_def Let_def split: if_splits)
  from trim_fields[OF 1] 2 show ?thesis by (simp add: foldl_upd_apply)
qed

lemma ce_finish_cleared:
  assumes "ce_finish cfg ne c = Inr u"
  shows "done_agents_per_env u k =
           (if k \<in> (\<lambda>ev. fst (snd ev)) ` set (done_envs c) then Some []
            else done_agents_per_env c k) \<and>
         tbd_ready u k =
           (if k \<in> (\<lambda>ev. fst (snd ev)) ` set (done_envs c) then Some (empty_slots cfg)
            else tbd_ready c k) \<and>
         tbd_filling u k =
           (if k \<in> (\<lambda>ev. fst (snd ev)) ` set (done_envs c) then Some (empty_slots cfg)
            else tbd_filling c k)"
proof (cases "done_envs c = []")
  case True
  with assms show ?thesis by (auto simp: ce_finish_def)
next
  case False
  with assms obtain s1 where 1: "trim ne (sort (map fst (done_envs c))) s1 = Inr u"
    and 2: "done_agents_per_env s1 =
      foldl (\<lambda>m e. m(e \<mapsto> [])) (done_agents_per_env c) (map (\<lambda>d. fst (snd d)) (done_envs c))"
      "tbd_ready s1 =
      foldl (\<lambda>m e. m(e \<mapsto> empty_slots cfg)) (tbd_ready c) (map (\<lambda>d. fst (snd d)) (done_envs c))"
      "tbd_filling s1 =
      foldl (\<lambda>m e. m(e \<mapsto> empty_slots cfg)) (tbd_filling c) (map (\<lambda>d. fst (snd d)) (done_envs c))"
    by (auto simp: ce_finish_def Let_def split: if_splits)
  from trim_ce_fields[OF 1] 2 show ?thesis by (simp add: foldl_upd_apply)
qed

lemma ma_tick_cleared:
  assumes "ma_tick cfg ne rows s = Inr t"
  shows "\<forall>ev\<in>set (done_envs t). done_agents_per_env t (fst (snd ev)) = Some []"
proof -
  from assms obtain s1 where 1: "ma_lanes cfg 0 rows (begin_tick s) = Inr s1"
    and 2: "ma_finish ne (ma_flush s1) = Inr t"
    by (auto simp: ma_tick_Inr)
  from ma_finish_cleared[OF 2] ma_finish_fields[OF 2] show ?thesis by auto
qed

lemma ce_tick_cleared:
  assumes "ce_tick cfg ne rows c = Inr u"
  shows "\<forall>ev\<in>set (done_envs u).
           done_agents_per_env u (fst (snd ev)) = Some [] \<and>
           tbd_ready u (fst (snd ev)) = Some (empty_slots cfg) \<and>
           tbd_filling u (fst (snd ev)) = Some (empty_slots cfg)"
proof -
  from assms obtain s1 where 1: "ce_lanes cfg 0 rows (begin_tick c) = Inr s1"
    and 2: "ce_finish cfg ne (ce_flush s1) = Inr u"
    by (auto simp: ce_tick_Inr)
  from ce_finish_cleared[OF 2] ce_finish_fields[OF 2] show ?thesis by auto
qed

lemma live_empty_slots: "live (empty_slots cfg) = []"
  by (simp add: live_def empty_slots_def)

lemma store_pending_dom:
  "store_pending cfg row b nb s = Inr s' \<Longrightarrow> dom (temp_data s) \<subseteq> dom (temp_data s')"
  by (auto simp: store_pending_def split: if_splits option.splits)

lemma ma_lane_dom:
  assumes "ma_lane cfg i row s = Inr s'"
  shows "dom (temp_data s) - {next_buffer_id cfg row} \<subseteq> dom (temp_data s')"
proof -
  let ?b = "buffer_id cfg row" and ?nb = "next_buffer_id cfg row"
  let ?s2 = "ma_same row ?b ?nb (ma_resolve row ?nb s)"
  from assms obtain s3 where 3: "mark_done cfg i row ?nb ?s2 = Inr s3"
    and 4: "store_pending cfg row ?b ?nb s3 = Inr s'"
    by (auto simp: ma_lane_def Let_def then_do_Inr)
  have "dom (temp_data s) - {?nb} \<subseteq> dom (temp_data ?s2)"
    by (auto simp: ma_resolve_def split: option.splits)
  with mark_done_fields[OF 3] store_pending_dom[OF 4] show ?thesis by auto
qed

lemma ce_resolve_dom:
  "ce_resolve row nb s = Inr s' \<Longrightarrow> dom (temp_data s) - {nb} \<subseteq> dom (temp_data s')"
  by (auto simp: ce_resolve_def Let_def split: option.splits if_splits)

lemma ce_same_dom:
  "ce_same row b nb s = Inr s' \<Longrightarrow> dom (temp_data s) - {nb} \<subseteq> dom (temp_data s')"
  by (auto simp: ce_same_def Let_def split: option.splits if_splits)

lemma ce_lane_dom:
  assumes "ce_lane cfg i row c = Inr c'"
  shows "dom (temp_data c) - {next_buffer_id cfg row} \<subseteq> dom (temp_data c')"
proof -
  from assms obtain s1 s2 s3 s4 s5 s6 where
    1: "ce_mark_filling cfg row c = Inr s1" and 2: "ce_boundary cfg row s1 = Inr s2" and
    3: "ce_resolve row (next_buffer_id cfg row) s2 = Inr s3" and
    4: "ce_same row (buffer_id cfg row) (next_buffer_id cfg row) s3 = Inr s4" and
    5: "ce_flush_round cfg row s4 = Inr s5" and
    6: "mark_done cfg i row (next_buffer_id cfg row) s5 = Inr s6" and
    7: "store_pending cfg row (buffer_id cfg row) (next_buffer_id cfg row) s6 = Inr c'"
    by (auto simp: ce_lane_Inr)
  from ce_mark_filling_fields[OF 1] ce_boundary_fields[OF 2] ce_resolve_dom[OF 3]
    ce_same_dom[OF 4] ce_flush_round_fields[OF 5] mark_done_fields[OF 6]
    store_pending_dom[OF 7]
  show ?thesis by auto
qed

lemma ma_lanes_dom:
  "ma_lanes cfg i rows s = Inr s' \<Longrightarrow>
   dom (temp_data s) - next_buffer_id cfg ` set rows \<subseteq> dom (temp_data s')"
proof (induction rows arbitrary: i s)
  case Nil
  then show ?case by simp
next
  case (Cons row rows)
  then obtain s1 where 1: "ma_lane cfg i row s = Inr s1" and 2: "ma_lanes cfg (Suc i) rows s1 = Inr s'"
    by (auto simp: then_do_Inr)
  from ma_lane_dom[OF 1] Cons.IH[OF 2] show ?case by auto
qed

lemma ce_lanes_dom:
  "ce_lanes cfg i rows c = Inr c' \<Longrightarrow>
   dom (temp_data c) - next_buffer_id cfg ` set rows \<subseteq> dom (temp_data c')"
proof (induction rows arbitrary: i c)
  case Nil
  then show ?case by simp
next
  case (Cons row rows)
  then obtain c1 where 1: "ce_lane cfg i row c = Inr c1" and 2: "ce_lanes cfg (Suc i) rows c1 = Inr c'"
    by (auto simp: then_do_Inr)
  from ce_lane_dom[OF 1] Cons.IH[OF 2] show ?case by auto
qed

lemma ma_tick_dom:
  assumes "ma_tick cfg ne rows s = Inr t"
  shows "dom (temp_data s) - next_buffer_id cfg ` set rows \<subseteq> dom (temp_data t)"
proof -
  from assms obtain s1 where 1: "ma_lanes cfg 0 rows (begin_tick s) = Inr s1"
    and 2: "ma_finish ne (ma_flush s1) = Inr t"
    by (auto simp: ma_tick_Inr)
  from ma_lanes_dom[OF 1] ma_finish_fields[OF 2] show ?thesis by simp
qed

lemma ce_tick_dom:
  assumes "ce_tick cfg ne rows c = Inr u"
  shows "dom (temp_data c) - next_buffer_id cfg ` set rows \<subseteq> dom (temp_data u)"
proof -
  from assms obtain s1 where 1: "ce_lanes cfg 0 rows (begin_tick c) = Inr s1"
    and 2: "ce_finish cfg ne (ce_flush s1) = Inr u"
    by (auto simp: ce_tick_Inr)
  from ce_lanes_dom[OF 1] ce_finish_fields[OF 2] show ?thesis by simp
qed

lemma filter_zip_swap:
  "length is = length xs \<Longrightarrow>
   map snd (filter (\<lambda>p. P (fst p)) (zip is xs)) = map fst (filter (\<lambda>p. P (snd p)) (zip xs is))"
  by (induction "is" xs rule: list_induct2) auto

lemma mask_out_nths:
  assumes "mask_out idxs xs = Inr ys"
  shows "ys = nths xs {j. j \<notin> set idxs}"
proof -
  from assms have "ys = map snd (filter (\<lambda>p. fst p \<notin> set idxs) (zip [0..<length xs] xs))"
    by (auto simp: mask_out_def enumerate_eq_zip split: if_splits)
  also have "\<dots> = map fst (filter (\<lambda>p. snd p \<notin> set idxs) (zip xs [0..<length xs]))"
    by (rule filter_zip_swap) simp
  finally show ?thesis by (simp add: nths_def)
qed

lemma mask_out_total:
  "\<forall>j\<in>set idxs. j < length xs \<Longrightarrow> \<exists>ys. mask_out idxs xs = Inr ys"
  by (auto simp: mask_out_def list_ex_iff)

lemma ma_lanes_events:
  "ma_lanes cfg i rows s = Inr s' \<Longrightarrow>
   \<exists>evs. done_envs s' = done_envs s @ evs \<and> sorted_wrt (<) (map fst evs) \<and>
     (\<forall>j\<in>set (map fst evs). i \<le> j \<and> j < i + length rows)"
proof (induction rows arbitrary: i s)
  case Nil
  then show ?case by simp
next
  case (Cons row rows)
  then obtain s1 where 1: "ma_lane cfg i row s = Inr s1" and 2: "ma_lanes cfg (Suc i) rows s1 = Inr s'"
    by (auto simp: then_do_Inr)
  from Cons.IH[OF 2] obtain evs where e: "done_envs s' = done_envs s1 @ evs"
    "sorted_wrt (<) (map fst evs)" "\<forall>j\<in>set (map fst evs). Suc i \<le> j \<and> j < Suc i + length rows"
    by blast
  from ma_lane_event[OF 1]
  have "done_envs s1 = done_envs s @ [event_of i row s1] \<or> done_envs s1 = done_envs s" by blast
  then show ?case
  proof
    assume "done_envs s1 = done_envs s"
    with e show ?thesis by (intro exI[of _ evs]) auto
  next
    assume "done_envs s1 = done_envs s @ [event_of i row s1]"
    with e show ?thesis
      by (intro exI[of _ "event_of i row s1 # evs"]) (auto simp: event_of_def)
  qed
qed

lemma ce_lanes_events:
  "ce_lanes cfg i rows s = Inr s' \<Longrightarrow>
   \<exists>evs. done_envs s' = done_envs s @ evs \<and> sorted_wrt (<) (map fst evs) \<and>
     (\<forall>j\<in>set (map fst evs). i \<le> j \<and> j < i + length rows)"
proof (induction rows arbitrary: i s)
  case Nil
  then show ?case by simp
next
  case (Cons row rows)
  then obtain s1 where 1: "ce_lane cfg i row s = Inr s1" and 2: "ce_lanes cfg (Suc i) rows s1 = Inr s'"
    by (auto simp: then_do_Inr)
  from Cons.IH[OF 2] obtain evs where e: "done_envs s' = done_envs s1 @ evs"
    "sorted_wrt (<) (map fst evs)" "\<forall>j\<in>set (map fst evs). Suc i \<le> j \<and> j < Suc i + length rows"
    by blast
  from ce_lane_event[OF 1]
  have "done_envs s1 = done_envs s @ [event_of i row s1] \<or> done_envs s1 = done_envs s" by blast
  then show ?case
  proof
    assume "done_envs s1 = done_envs s"
    with e show ?thesis by (intro exI[of _ evs]) auto
  next
    assume "done_envs s1 = done_envs s @ [event_of i row s1]"
    with e show ?thesis
      by (intro exI[of _ "event_of i row s1 # evs"]) (auto simp: event_of_def)
  qed
qed

lemma trim_ready:
  assumes "trim (Some n) loc s = Inr t" and "n \<noteq> 0"
  shows "ready_env_ids t =
           (if 0 < int (length (ready_env_ids s)) - (n - int (episode_count s))
            then nths (ready_env_ids s)
                   {j. j \<notin> set (take (nat (int (length (ready_env_ids s)) - (n - int (episode_count s)))) loc)}
            else ready_env_ids s)"
  using assms
  by (auto simp: trim_def Let_def then_do_Inr dest!: mask_out_nths split: if_splits)

lemma sorted_wrt_less_sort:
  fixes xs :: "nat list"
  shows "sorted_wrt (<) xs \<Longrightarrow> sort xs = xs"
  by (simp add: sorted_sort_id strict_sorted_imp_sorted)


lemma ma_tick_trim:
  assumes "ma_tick cfg (Some n) rows s = Inr t" and "n \<noteq> 0"
  shows "sorted_wrt (<) (map fst (done_envs t)) \<and>
         (\<forall>j\<in>set (map fst (done_envs t)). j < length rows) \<and>
         ready_env_ids t =
           (if done_envs t \<noteq> [] \<and>
               0 < int (length (ready_env_ids s)) - (n - int (episode_count t))
            then nths (ready_env_ids s)
                   {j. j \<notin> set (take (nat (int (length (ready_env_ids s)) -
                                               (n - int (episode_count t))))
                                     (map fst (done_envs t)))}
            else ready_env_ids s)"
proof -
  from assms(1) obtain s1 where 1: "ma_lanes cfg 0 rows (begin_tick s) = Inr s1"
    and 2: "ma_finish (Some n) (ma_flush s1) = Inr t"
    by (auto simp: ma_tick_Inr)
  from ma_lanes_events[OF 1] have ev: "sorted_wrt (<) (map fst (done_envs s1))"
    "\<forall>j\<in>set (map fst (done_envs s1)). j < length rows" by auto
  note f = ma_finish_fields[OF 2] ma_lanes_fields[OF 1]
  have r: "ready_env_ids t =
           (if done_envs t \<noteq> [] \<and>
               0 < int (length (ready_env_ids s)) - (n - int (episode_count t))
            then nths (ready_env_ids s)
                   {j. j \<notin> set (take (nat (int (length (ready_env_ids s)) -
                                               (n - int (episode_count t))))
                                     (map fst (done_envs t)))}
            else ready_env_ids s)"
  proof (cases "done_envs s1 = []")
    case True
    with 2 f show ?thesis by (auto simp: ma_finish_def)
  next
    case False
    with 2 obtain s2 where 3: "trim (Some n) (map fst (done_envs s1)) s2 = Inr t"
      and 4: "ready_env_ids s2 = ready_env_ids s1"
        "episode_count s2 = episode_count s1 + length (done_envs s1)"
      by (auto simp: ma_finish_def Let_def split: if_splits)
    from trim_ready[OF 3 assms(2)] 4 f False show ?thesis by simp
  qed
  from ev r f show ?thesis by simp
qed

lemma ce_tick_trim:
  assumes "ce_tick cfg (Some n) rows c = Inr u" and "n \<noteq> 0"
  shows "sorted_wrt (<) (map fst (done_envs u)) \<and>
         (\<forall>j\<in>set (map fst (done_envs u)). j < length rows) \<and>
         ready_env_ids u =
           (if done_envs u \<noteq> [] \<and>
               0 < int (length (ready_env_ids c)) - (n - int (episode_count u))
            then nths (ready_env_ids c)
                   {j. j \<notin> set (take (nat (int (length (ready_env_ids c)) -
                                               (n - int (episode_count u))))
                                     (map fst (done_envs u)))}
            else ready_env_ids c)"
proof -
  from assms(1) obtain s1 where 1: "ce_lanes cfg 0 rows (begin_tick c) = Inr s1"
    and 2: "ce_finish cfg (Some n) (ce_flush s1) = Inr u"
    by (auto simp: ce_tick_Inr)
  from ce_lanes_events[OF 1] have ev: "sorted_wrt (<) (map fst (done_envs s1))"
    "\<forall>j\<in>set (map fst (done_envs s1)). j < length rows" by auto
  note f = ce_finish_fields[OF 2] ce_lanes_fields[OF 1]
  have r: "ready_env_ids u =
           (if done_envs u \<noteq> [] \<and>
               0 < int (length (ready_env_ids c)) - (n - int (episode_count u))
            then nths (ready_env_ids c)
                   {j. j \<notin> set (take (nat (int (length (ready_env_ids c)) -
                                               (n - int (episode_count u))))
                                     (map fst (done_envs u)))}
            else ready_env_ids c)"
  proof (cases "done_envs s1 = []")
    case True
    with 2 f show ?thesis by (auto simp: ce_finish_def)
  next
    case False
    with 2 obtain s2 where 3: "trim (Some n) (sort (map fst (done_envs s1))) s2 = Inr u"
      and 4: "ready_env_ids s2 = ready_env_ids s1"
        "episode_count s2 = episode_count s1 + length (done_envs s1)"
      by (auto simp: ce_finish_def Let_def split: if_splits)
    from sorted_wrt_less_sort[OF ev(1)] 3
    have 3: "trim (Some n) (map fst (done_envs s1)) s2 = Inr u" by simp
    from trim_ready[OF 3 assms(2)] 4 f False show ?thesis by simp
  qed
  from ev r f show ?thesis by simp
qed

lemma sort_eq_mset:
  fixes xs ys :: "int list"
  shows "sort xs = sort ys \<Longrightarrow> mset xs = mset ys"
  by (metis mset_sort)

lemma ce_boundary_ready:
  assumes "ce_boundary cfg row s1 = Inr s2"
  shows "tbd_ready s2 (env_id (info row)) = tbd_ready s1 (env_id (info row)) \<or>
         ((environment_step (info row) \<or> explicit_reset (info row)) \<and>
          tbd_ready s2 (env_id (info row)) = tbd_filling s1 (env_id (info row)))"
  using assms
  by (auto simp: ce_boundary_def Let_def split: option.splits if_splits)

lemma ce_mark_filling_value:
  assumes "ce_mark_filling cfg row c = Inr s1"
  shows "tbd_ready s1 = tbd_ready c \<and>
         (\<exists>f d. tbd_filling c (env_id (info row)) = Some f \<and>
            done_agents_per_env c (env_id (info row)) = Some d \<and>
            tbd_filling s1 (env_id (info row)) =
              Some (f[agent_id (obs row) :=
                 (if buffer_id cfg row \<notin> set d then int (buffer_id cfg row) else - 1)]))"
  using assms
  by (auto simp: ce_mark_filling_def Let_def split: option.splits if_splits)

lemma ce_lane_closes:
  assumes "ce_lane cfg i row c = Inr c'"
  shows "(buffer_ids_to_save c' = buffer_ids_to_save c \<and>
          experience_to_save c' = experience_to_save c) \<or>
         (\<exists>ids. closes_round cfg row c c' ids)"
proof -
  let ?e = "env_id (info row)"
  from assms obtain s1 s2 s3 s4 s5 s6 where
    1: "ce_mark_filling cfg row c = Inr s1" and 2: "ce_boundary cfg row s1 = Inr s2" and
    3: "ce_resolve row (next_buffer_id cfg row) s2 = Inr s3" and
    4: "ce_same row (buffer_id cfg row) (next_buffer_id cfg row) s3 = Inr s4" and
    5: "ce_flush_round cfg row s4 = Inr s5" and
    6: "mark_done cfg i row (next_buffer_id cfg row) s5 = Inr s6" and
    7: "store_pending cfg row (buffer_id cfg row) (next_buffer_id cfg row) s6 = Inr c'"
    by (auto simp: ce_lane_Inr)
  have pre: "buffer_ids_to_save s4 = buffer_ids_to_save c"
    "experience_to_save s4 = experience_to_save c" "tbd_ready s4 = tbd_ready s2"
    using ce_mark_filling_fields[OF 1] ce_boundary_fields[OF 2] ce_resolve_fields[OF 3]
      ce_same_fields[OF 4] by simp_all
  have post: "buffer_ids_to_save c' = buffer_ids_to_save s5"
    "experience_to_save c' = experience_to_save s5"
    "tbd_ready c' = tbd_ready s5" "tbd_exps_to_save c' = tbd_exps_to_save s5"
    "tbd_buffer_ids_to_save c' = tbd_buffer_ids_to_save s5"
    using mark_done_fields[OF 6] store_pending_fields[OF 7]
      mark_done_ce_fields[OF 6] store_pending_ce_fields[OF 7] by simp_all
  from ce_flush_round_cases[OF 5] show ?thesis
  proof
    assume "experience_to_save s5 = experience_to_save s4 \<and>
          buffer_ids_to_save s5 = buffer_ids_to_save s4 \<and>
          step_count s5 = step_count s4 \<and> tbd_ready s5 = tbd_ready s4 \<and>
          tbd_exps_to_save s5 = tbd_exps_to_save s4 \<and>
          tbd_buffer_ids_to_save s5 = tbd_buffer_ids_to_save s4"
    with pre post show ?thesis by simp
  next
    assume "\<exists>r ids xs. tbd_ready s4 ?e = Some r \<and>
            tbd_buffer_ids_to_save s4 ?e = Some ids \<and>
            tbd_exps_to_save s4 ?e = Some xs \<and>
            live r \<noteq> [] \<and> sort (live r) = sort (map int ids) \<and> xs \<noteq> [] \<and>
            experience_to_save s5 = experience_to_save s4 @ add_extra_info cfg (buffer s4) r xs \<and>
            buffer_ids_to_save s5 = buffer_ids_to_save s4 @ ids \<and>
            step_count s5 = step_count s4 + 1 \<and>
            tbd_ready s5 = (tbd_ready s4)(?e \<mapsto> empty_slots cfg) \<and>
            tbd_exps_to_save s5 = (tbd_exps_to_save s4)(?e \<mapsto> []) \<and>
            tbd_buffer_ids_to_save s5 = (tbd_buffer_ids_to_save s4)(?e \<mapsto> [])"
    then obtain r ids where r: "tbd_ready s4 ?e = Some r" "live r \<noteq> []"
      "sort (live r) = sort (map int ids)"
      "buffer_ids_to_save s5 = buffer_ids_to_save s4 @ ids"
      "tbd_ready s5 = (tbd_ready s4)(?e \<mapsto> empty_slots cfg)"
      "tbd_exps_to_save s5 = (tbd_exps_to_save s4)(?e \<mapsto> [])"
      "tbd_buffer_ids_to_save s5 = (tbd_buffer_ids_to_save s4)(?e \<mapsto> [])"
      by blast
    from sort_eq_mset[OF r(3)] have ms: "mset (map int ids) = mset (live r)" by simp
    from ce_mark_filling_value[OF 1] obtain f d where
      m: "tbd_ready s1 = tbd_ready c" "tbd_filling c ?e = Some f"
        "done_agents_per_env c ?e = Some d"
        "tbd_filling s1 ?e = Some (f[agent_id (obs row) :=
                 (if buffer_id cfg row \<notin> set d then int (buffer_id cfg row) else - 1)])"
      by blast
    from ce_boundary_ready[OF 2] r(1) pre(3) m
    have src: "tbd_ready c ?e = Some r \<or>
             (environment_step (info row) \<or> explicit_reset (info row)) \<and>
             (\<exists>f d. tbd_filling c ?e = Some f \<and> done_agents_per_env c ?e = Some d \<and>
                r = f[agent_id (obs row) :=
                 (if buffer_id cfg row \<notin> set d then int (buffer_id cfg row) else - 1)])"
      by auto
    have "closes_round cfg row c c' ids"
      unfolding closes_round_def Let_def
      using ms src r(2,4-) pre post by (intro exI[of _ r]) simp
    then show ?thesis by blast
  qed
qed

lemma ce_lanes_append:
  "ce_lanes cfg i (xs @ ys) c = then_do (ce_lanes cfg i xs c) (ce_lanes cfg (i + length xs) ys)"
proof (induction xs arbitrary: i c)
  case Nil
  then show ?case by simp
next
  case (Cons x xs)
  show ?case
  proof (cases "ce_lane cfg i x c")
    case (Inl e)
    then show ?thesis by simp
  next
    case (Inr c1)
    with Cons.IH[of "Suc i" c1] show ?thesis by simp
  qed
qed

lemma ce_lanes_closed:
  "ce_lanes cfg i rows c = Inr c' \<Longrightarrow>
   \<exists>rounds. buffer_ids_to_save c' = buffer_ids_to_save c @ concat (map snd rounds) \<and>
      sorted_wrt (<) (map fst rounds) \<and>
      (\<forall>jr\<in>set rounds. fst jr < length rows \<and>
         (\<exists>cj cj'. ce_lanes cfg i (take (fst jr) rows) c = Inr cj \<and>
            ce_lane cfg (i + fst jr) (rows ! fst jr) cj = Inr cj' \<and>
            closes_round cfg (rows ! fst jr) cj cj' (snd jr)))"
proof (induction rows arbitrary: c' rule: rev_induct)
  case Nil
  then show ?case by (intro exI[of _ "[]"]) simp
next
  case (snoc row rows)
  from snoc.prems obtain c1 where 1: "ce_lanes cfg i rows c = Inr c1"
    and 2: "ce_lane cfg (i + length rows) row c1 = Inr c'"
    by (auto simp: ce_lanes_append then_do_Inr split: sum.splits)
  from snoc.IH[OF 1] obtain rounds where
    r: "buffer_ids_to_save c1 = buffer_ids_to_save c @ concat (map snd rounds)"
      "sorted_wrt (<) (map fst rounds)"
      "\<forall>jr\<in>set rounds. fst jr < length rows \<and>
         (\<exists>cj cj'. ce_lanes cfg i (take (fst jr) rows) c = Inr cj \<and>
            ce_lane cfg (i + fst jr) (rows ! fst jr) cj = Inr cj' \<and>
            closes_round cfg (rows ! fst jr) cj cj' (snd jr))"
    by blast
  have old: "\<forall>jr\<in>set rounds. fst jr < length (rows @ [row]) \<and>
         (\<exists>cj cj'. ce_lanes cfg i (take (fst jr) (rows @ [row])) c = Inr cj \<and>
            ce_lane cfg (i + fst jr) ((rows @ [row]) ! fst jr) cj = Inr cj' \<and>
            closes_round cfg ((rows @ [row]) ! fst jr) cj cj' (snd jr))"
  proof
    fix jr assume "jr \<in> set rounds"
    with r(3) have j: "fst jr < length rows"
      "\<exists>cj cj'. ce_lanes cfg i (take (fst jr) rows) c = Inr cj \<and>
            ce_lane cfg (i + fst jr) (rows ! fst jr) cj = Inr cj' \<and>
            closes_round cfg (rows ! fst jr) cj cj' (snd jr)" by blast+
    from j(1) have "take (fst jr) (rows @ [row]) = take (fst jr) rows"
      "(rows @ [row]) ! fst jr = rows ! fst jr" by (simp_all add: nth_append)
    with j show "fst jr < length (rows @ [row]) \<and>
         (\<exists>cj cj'. ce_lanes cfg i (take (fst jr) (rows @ [row])) c = Inr cj \<and>
            ce_lane cfg (i + fst jr) ((rows @ [row]) ! fst jr) cj = Inr cj' \<and>
            closes_round cfg ((rows @ [row]) ! fst jr) cj cj' (snd jr))" by simp
  qed
  from ce_lane_closes[OF 2] show ?case
  proof
    assume "buffer_ids_to_save c' = buffer_ids_to_save c1 \<and>
          experience_to_save c' = experience_to_save c1"
    with r(1,2) old show ?thesis by (intro exI[of _ rounds]) simp
  next
    assume "\<exists>ids. closes_round cfg row c1 c' ids"
    then obtain ids where c: "closes_round cfg row c1 c' ids" by blast
    then have b: "buffer_ids_to_save c' = buffer_ids_to_save c1 @ ids"
      by (auto simp: closes_round_def Let_def)
    let ?n = "(length rows, ids)"
    have new: "fst ?n < length (rows @ [row]) \<and>
         (\<exists>cj cj'. ce_lanes cfg i (take (fst ?n) (rows @ [row])) c = Inr cj \<and>
            ce_lane cfg (i + fst ?n) ((rows @ [row]) ! fst ?n) cj = Inr cj' \<and>
            closes_round cfg ((rows @ [row]) ! fst ?n) cj cj' (snd ?n))"
      using 1 2 c by auto
    have s: "sorted_wrt (<) (map fst (rounds @ [?n]))"
      using r(2,3) by (auto simp: sorted_wrt_append)
    have "\<forall>jr\<in>set (rounds @ [?n]). fst jr < length (rows @ [row]) \<and>
         (\<exists>cj cj'. ce_lanes cfg i (take (fst jr) (rows @ [row])) c = Inr cj \<and>
            ce_lane cfg (i + fst jr) ((rows @ [row]) ! fst jr) cj = Inr cj' \<and>
            closes_round cfg ((rows @ [row]) ! fst jr) cj cj' (snd jr))"
      using old new by (metis (no_types, lifting) Un_iff empty_iff empty_set set_ConsD set_append)
    with s r(1) b show ?thesis by (intro exI[of _ "rounds @ [?n]"]) simp
  qed
qed

lemma concat_snd_nonempty:
  "\<forall>jr\<in>set rounds. snd jr \<noteq> [] \<Longrightarrow> concat (map snd rounds) = [] \<longleftrightarrow> rounds = []"
  by (cases rounds) auto

lemma ce_tick_closed:
  assumes "ce_tick cfg ne rows c = Inr u"
  shows "\<exists>rounds. buffer_ids_to_save u = concat (map snd rounds) \<and>
           sorted_wrt (<) (map fst rounds) \<and>
           (\<forall>jr\<in>set rounds. fst jr < length rows \<and>
              (\<exists>cj cj'. ce_lanes cfg 0 (take (fst jr) rows) (begin_tick c) = Inr cj \<and>
                 ce_lane cfg (fst jr) (rows ! fst jr) cj = Inr cj' \<and>
                 closes_round cfg (rows ! fst jr) cj cj' (snd jr))) \<and>
           buffer u = (if rounds = [] then buffer c
                       else buffer c @ [(experience_to_save u, concat (map snd rounds))])"
proof -
  from assms obtain s1 where 1: "ce_lanes cfg 0 rows (begin_tick c) = Inr s1"
    and 2: "ce_finish cfg ne (ce_flush s1) = Inr u"
    by (auto simp: ce_tick_Inr)
  from ce_lanes_closed[OF 1] obtain rounds where r:
    "buffer_ids_to_save s1 = concat (map snd rounds)" "sorted_wrt (<) (map fst rounds)"
    "\<forall>jr\<in>set rounds. fst jr < length rows \<and>
         (\<exists>cj cj'. ce_lanes cfg 0 (take (fst jr) rows) (begin_tick c) = Inr cj \<and>
            ce_lane cfg (fst jr) (rows ! fst jr) cj = Inr cj' \<and>
            closes_round cfg (rows ! fst jr) cj cj' (snd jr))"
    by auto
  from r(3) have "\<forall>jr\<in>set rounds. snd jr \<noteq> []"
    by (auto simp: closes_round_def Let_def live_def)
  from concat_snd_nonempty[OF this] have "concat (map snd rounds) = [] \<longleftrightarrow> rounds = []" .
  with r ce_lanes_fields[OF 1] ce_finish_fields[OF 2] show ?thesis
    by (intro exI[of _ rounds]) simp
qed

lemma ce_lane_filling_assert:
  assumes "tbd_filling c (env_id (info row)) = Some f" and "agent_id (obs row) < length f"
    and "f ! agent_id (obs row) \<noteq> - 1"
  shows "ce_lane cfg i row c = Inl AssertionError"
  using assms by (simp add: ce_lane_def ce_mark_filling_def Let_def)

lemma ce_mark_filling_keeps:
  assumes "ce_mark_filling cfg row c = Inr s1" and "tbd_filling c e = Some f"
    and "a < length f" and "f ! a \<noteq> - 1"
  shows "\<not> (env_id (info row) = e \<and> agent_id (obs row) = a) \<and>
         (\<exists>f'. tbd_filling s1 e = Some f' \<and> a < length f' \<and> f' ! a = f ! a)"
  using assms
  by (auto simp: ce_mark_filling_def Let_def nth_list_update split: option.splits if_splits)

lemma ce_boundary_keeps:
  assumes "ce_boundary cfg row s1 = Inr s2"
    and "env_id (info row) = e \<longrightarrow> \<not> environment_step (info row) \<and> \<not> explicit_reset (info row)"
  shows "tbd_filling s2 e = tbd_filling s1 e"
  using assms
  by (auto simp: ce_boundary_def Let_def split: option.splits if_splits)

lemma ce_lane_keeps:
  assumes "ce_lane cfg i row c = Inr c'" and "tbd_filling c e = Some f"
    and "a < length f" and "f ! a \<noteq> - 1"
    and "env_id (info row) = e \<longrightarrow> \<not> environment_step (info row) \<and> \<not> explicit_reset (info row)"
  shows "\<not> (env_id (info row) = e \<and> agent_id (obs row) = a) \<and>
         (\<exists>f'. tbd_filling c' e = Some f' \<and> a < length f' \<and> f' ! a = f ! a)"
proof -
  from assms(1) obtain s1 s2 s3 s4 s5 s6 where
    1: "ce_mark_filling cfg row c = Inr s1" and 2: "ce_boundary cfg row s1 = Inr s2" and
    3: "ce_resolve row (next_buffer_id cfg row) s2 = Inr s3" and
    4: "ce_same row (buffer_id cfg row) (next_buffer_id cfg row) s3 = Inr s4" and
    5: "ce_flush_round cfg row s4 = Inr s5" and
    6: "mark_done cfg i row (next_buffer_id cfg row) s5 = Inr s6" and
    7: "store_pending cfg row (buffer_id cfg row) (next_buffer_id cfg row) s6 = Inr c'"
    by (auto simp: ce_lane_Inr)
  have "tbd_filling c' = tbd_filling s2"
    using ce_resolve_fields[OF 3] ce_same_fields[OF 4] ce_flush_round_fields[OF 5]
      mark_done_ce_fields[OF 6] store_pending_ce_fields[OF 7] by simp
  with ce_mark_filling_keeps[OF 1 assms(2-4)] ce_boundary_keeps[OF 2 assms(5)]
  show ?thesis by simp
qed

lemma ce_lane_marks:
  assumes "ce_lane cfg i row c = Inr c'"
    and "done_agents_per_env c (env_id (info row)) = Some d" and "buffer_id cfg row \<notin> set d"
    and "\<not> environment_step (info row)" and "\<not> explicit_reset (info row)"
  shows "\<exists>f'. tbd_filling c' (env_id (info row)) = Some f' \<and> agent_id (obs row) < length f' \<and>
           f' ! agent_id (obs row) = int (buffer_id cfg row)"
proof -
  from assms(1) obtain s1 s2 s3 s4 s5 s6 where
    1: "ce_mark_filling cfg row c = Inr s1" and 2: "ce_boundary cfg row s1 = Inr s2" and
    3: "ce_resolve row (next_buffer_id cfg row) s2 = Inr s3" and
    4: "ce_same row (buffer_id cfg row) (next_buffer_id cfg row) s3 = Inr s4" and
    5: "ce_flush_round cfg row s4 = Inr s5" and
    6: "mark_done cfg i row (next_buffer_id cfg row) s5 = Inr s6" and
    7: "store_pending cfg row (buffer_id cfg row) (next_buffer_id cfg row) s6 = Inr c'"
    by (auto simp: ce_lane_Inr)
  have a: "tbd_filling c' = tbd_filling s2"
    using ce_resolve_fields[OF 3] ce_same_fields[OF 4] ce_flush_round_fields[OF 5]
      mark_done_ce_fields[OF 6] store_pending_ce_fields[OF 7] by simp
  have b: "tbd_filling s2 = tbd_filling s1"
    using 2 assms(4,5) by (simp add: ce_boundary_def)
  from 1 assms(2,3)
  have "\<exists>f'. tbd_filling s1 (env_id (info row)) = Some f' \<and> agent_id (obs row) < length f' \<and>
           f' ! agent_id (obs row) = int (buffer_id cfg row)"
    by (auto simp: ce_mark_filling_def Let_def split: option.splits if_splits)
  with a b show ?thesis by simp
qed

lemma ce_lanes_keeps:
  "ce_lanes cfg i rows c = Inr c' \<Longrightarrow> tbd_filling c e = Some f \<Longrightarrow>
   a < length f \<Longrightarrow> f ! a \<noteq> - 1 \<Longrightarrow>
   \<forall>row\<in>set rows. env_id (info row) = e \<longrightarrow>
       \<not> environment_step (info row) \<and> \<not> explicit_reset (info row) \<Longrightarrow>
   (\<forall>row\<in>set rows. \<not> (env_id (info row) = e \<and> agent_id (obs row) = a)) \<and>
   (\<exists>f'. tbd_filling c' e = Some f' \<and> a < length f' \<and> f' ! a = f ! a)"
proof (induction rows arbitrary: i c f)
  case Nil
  then show ?case by simp
next
  case (Cons row rows)
  from Cons.prems(1) obtain c1 where 1: "ce_lane cfg i row c = Inr c1"
    and 2: "ce_lanes cfg (Suc i) rows c1 = Inr c'"
    by (auto simp: then_do_Inr)
  from Cons.prems(5) have q: "env_id (info row) = e \<longrightarrow>
       \<not> environment_step (info row) \<and> \<not> explicit_reset (info row)"
    and qs: "\<forall>row\<in>set rows. env_id (info row) = e \<longrightarrow>
       \<not> environment_step (info row) \<and> \<not> explicit_reset (info row)" by simp_all
  from ce_lane_keeps[OF 1 Cons.prems(2-4) q] obtain f1 where
    n: "\<not> (env_id (info row) = e \<and> agent_id (obs row) = a)"
    and f1: "tbd_filling c1 e = Some f1" "a < length f1" "f1 ! a = f ! a" by blast
  from f1(3) Cons.prems(4) have "f1 ! a \<noteq> - 1" by simp
  from Cons.IH[OF 2 f1(1,2) this qs] n f1(3) show ?case by auto
qed

lemma ce_tick_keeps:
  assumes "ce_tick cfg ne rows c = Inr u" and "tbd_filling c e = Some f"
    and "a < length f" and "f ! a \<noteq> - 1"
    and "\<forall>row\<in>set rows. env_id (info row) = e \<longrightarrow>
       \<not> environment_step (info row) \<and> \<not> explicit_reset (info row)"
    and "e \<notin> (\<lambda>ev. fst (snd ev)) ` set (done_envs u)"
  shows "(\<forall>row\<in>set rows. \<not> (env_id (info row) = e \<and> agent_id (obs row) = a)) \<and>
         (\<exists>f'. tbd_filling u e = Some f' \<and> a < length f' \<and> f' ! a = f ! a)"
proof -
  from assms(1) obtain s1 where 1: "ce_lanes cfg 0 rows (begin_tick c) = Inr s1"
    and 2: "ce_finish cfg ne (ce_flush s1) = Inr u"
    by (auto simp: ce_tick_Inr)
  have b: "tbd_filling (begin_tick c) e = Some f" using assms(2) by simp
  from ce_lanes_keeps[OF 1 b assms(3,4,5)] obtain f' where
    n: "\<forall>row\<in>set rows. \<not> (env_id (info row) = e \<and> agent_id (obs row) = a)"
    and f': "tbd_filling s1 e = Some f'" "a < length f'" "f' ! a = f ! a" by blast
  from ce_finish_fields[OF 2] assms(6)
  have "e \<notin> (\<lambda>ev. fst (snd ev)) ` set (done_envs (ce_flush s1))" by simp
  with ce_finish_cleared[OF 2, of e] f' have "tbd_filling u e = Some f'" by simp
  with n f' show ?thesis by simp
qed


lemma ce_lanes_events_done:
  "ce_lanes cfg i rows c = Inr c' \<Longrightarrow>
   \<forall>ev\<in>set (done_envs c'). ev \<in> set (done_envs c) \<or>
     (\<exists>row\<in>set rows. fst (snd ev) = env_id (info row) \<and> done_flag row)"
proof (induction rows arbitrary: i c)
  case Nil
  then show ?case by simp
next
  case (Cons row rows)
  then obtain c1 where 1: "ce_lane cfg i row c = Inr c1" and 2: "ce_lanes cfg (Suc i) rows c1 = Inr c'"
    by (auto simp: then_do_Inr)
  from ce_lane_event[OF 1]
  have d: "done_envs c1 = done_envs c @ [event_of i row c1] \<and> done_flag row \<or>
        done_envs c1 = done_envs c" by blast
  have "\<forall>ev\<in>set (done_envs c1). ev \<in> set (done_envs c) \<or>
     fst (snd ev) = env_id (info row) \<and> done_flag row"
    using d by (auto simp: event_of_def)
  with Cons.IH[OF 2] show ?case by fastforce
qed

lemma ce_tick_quiet:
  assumes "ce_tick cfg ne rows c = Inr u" and "\<forall>row\<in>set rows. quiet_for e row"
  shows "e \<notin> (\<lambda>ev. fst (snd ev)) ` set (done_envs u)"
proof -
  from assms(1) obtain s1 where 1: "ce_lanes cfg 0 rows (begin_tick c) = Inr s1"
    and 2: "ce_finish cfg ne (ce_flush s1) = Inr u"
    by (auto simp: ce_tick_Inr)
  from ce_lanes_events_done[OF 1]
  have "\<forall>ev\<in>set (done_envs s1). \<exists>row\<in>set rows. fst (snd ev) = env_id (info row) \<and> done_flag row"
    by simp
  with assms(2) have "e \<notin> (\<lambda>ev. fst (snd ev)) ` set (done_envs s1)"
    by (auto simp: quiet_for_def)
  with ce_finish_fields[OF 2] show ?thesis by simp
qed

lemma ce_loop_keeps:
  "ce_loop cfg ns ne c script = Running c' \<Longrightarrow> tbd_filling c e = Some f \<Longrightarrow>
   a < length f \<Longrightarrow> f ! a \<noteq> - 1 \<Longrightarrow>
   \<forall>row\<in>set (concat script). quiet_for e row \<Longrightarrow>
   (\<forall>row\<in>set (concat script). \<not> (env_id (info row) = e \<and> agent_id (obs row) = a)) \<and>
   (\<exists>f'. tbd_filling c' e = Some f' \<and> a < length f' \<and> f' ! a = f ! a)"
proof (induction script arbitrary: c f)
  case Nil
  then show ?case by simp
next
  case (Cons rows script)
  from Cons.prems(1) obtain u where 1: "ce_tick cfg ne rows c = Inr u"
    and 2: "ce_loop cfg ns ne u script = Running c'"
    by (auto split: if_splits sum.splits)
  from Cons.prems(5) have q: "\<forall>row\<in>set rows. quiet_for e row"
    and qs: "\<forall>row\<in>set (concat script). quiet_for e row" by simp_all
  from q have q': "\<forall>row\<in>set rows. env_id (info row) = e \<longrightarrow>
       \<not> environment_step (info row) \<and> \<not> explicit_reset (info row)"
    by (simp add: quiet_for_def)
  from ce_tick_keeps[OF 1 Cons.prems(2-4) q' ce_tick_quiet[OF 1 q]] obtain f1 where
    n: "\<forall>row\<in>set rows. \<not> (env_id (info row) = e \<and> agent_id (obs row) = a)"
    and f1: "tbd_filling u e = Some f1" "a < length f1" "f1 ! a = f ! a" by blast
  from f1(3) Cons.prems(4) have "f1 ! a \<noteq> - 1" by simp
  from Cons.IH[OF 2 f1(1,2) this qs] n f1(3) show ?case by auto
qed

lemma ce_lane_quiet_tracker:
  assumes "ce_lane cfg i row c = Inr c'" and "quiet_for e row"
  shows "done_agents_per_env c' e = done_agents_per_env c e"
proof (cases "done_flag row")
  case False
  with ce_lane_event[OF assms(1)] show ?thesis by simp
next
  case True
  with assms(2) have ne: "env_id (info row) \<noteq> e" by (auto simp: quiet_for_def)
  from ce_lane_event[OF assms(1)] True obtain d where
    "done_agents_per_env c' =
       (done_agents_per_env c)(env_id (info row) \<mapsto> d @ [next_buffer_id cfg row])"
    by blast
  with ne show ?thesis by simp
qed

lemma ce_lanes_marks:
  "ce_lanes cfg i rows c = Inr c' \<Longrightarrow> r1 \<in> set rows \<Longrightarrow>
   done_agents_per_env c (env_id (info r1)) = Some d \<Longrightarrow> buffer_id cfg r1 \<notin> set d \<Longrightarrow>
   \<forall>row\<in>set rows. quiet_for (env_id (info r1)) row \<Longrightarrow>
   \<exists>f'. tbd_filling c' (env_id (info r1)) = Some f' \<and> agent_id (obs r1) < length f' \<and>
      f' ! agent_id (obs r1) = int (buffer_id cfg r1)"
proof (induction rows arbitrary: i c)
  case Nil
  then show ?case by simp
next
  case (Cons row rows)
  let ?e = "env_id (info r1)" and ?a = "agent_id (obs r1)"
  from Cons.prems(1) obtain c1 where 1: "ce_lane cfg i row c = Inr c1"
    and 2: "ce_lanes cfg (Suc i) rows c1 = Inr c'"
    by (auto simp: then_do_Inr)
  from Cons.prems(5) have q: "quiet_for ?e row" and qs: "\<forall>row\<in>set rows. quiet_for ?e row"
    by simp_all
  from qs have qs': "\<forall>row\<in>set rows. env_id (info row) = ?e \<longrightarrow>
       \<not> environment_step (info row) \<and> \<not> explicit_reset (info row)"
    by (simp add: quiet_for_def)
  show ?case
  proof (cases "r1 \<in> set rows")
    case True
    from ce_lane_quiet_tracker[OF 1 q] Cons.prems(3)
    have "done_agents_per_env c1 ?e = Some d" by simp
    from Cons.IH[OF 2 True this Cons.prems(4) qs] show ?thesis .
  next
    case False
    with Cons.prems(2) have r: "r1 = row" by simp
    with q have "\<not> environment_step (info row)" "\<not> explicit_reset (info row)"
      by (simp_all add: quiet_for_def)
    from ce_lane_marks[OF 1] Cons.prems(3,4) r this obtain f1 where
      f1: "tbd_filling c1 ?e = Some f1" "?a < length f1" "f1 ! ?a = int (buffer_id cfg r1)"
      by auto
    then have "f1 ! ?a \<noteq> - 1" by simp
    from ce_lanes_keeps[OF 2 f1(1,2) this qs'] f1(3) show ?thesis by auto
  qed
qed

lemma ce_tick_marks:
  assumes "ce_tick cfg ne rows c = Inr u" and "r1 \<in> set rows"
    and "done_agents_per_env c (env_id (info r1)) = Some d" and "buffer_id cfg r1 \<notin> set d"
    and "\<forall>row\<in>set rows. quiet_for (env_id (info r1)) row"
  shows "\<exists>f'. tbd_filling u (env_id (info r1)) = Some f' \<and> agent_id (obs r1) < length f' \<and>
           f' ! agent_id (obs r1) = int (buffer_id cfg r1)"
proof -
  from assms(1) obtain s1 where 1: "ce_lanes cfg 0 rows (begin_tick c) = Inr s1"
    and 2: "ce_finish cfg ne (ce_flush s1) = Inr u"
    by (auto simp: ce_tick_Inr)
  have b: "done_agents_per_env (begin_tick c) (env_id (info r1)) = Some d"
    using assms(3) by simp
  from ce_lanes_marks[OF 1 assms(2) b assms(4,5)] obtain f' where
    f': "tbd_filling s1 (env_id (info r1)) = Some f'" "agent_id (obs r1) < length f'"
      "f' ! agent_id (obs r1) = int (buffer_id cfg r1)" by blast
  from ce_tick_quiet[OF assms(1,5)] ce_finish_fields[OF 2]
  have "env_id (info r1) \<notin> (\<lambda>ev. fst (snd ev)) ` set (done_envs (ce_flush s1))" by simp
  with ce_finish_cleared[OF 2, of "env_id (info r1)"] f'
  have "tbd_filling u (env_id (info r1)) = Some f'" by simp
  with f' show ?thesis by simp
qed

lemma ce_loop_second_turn:
  assumes "ce_loop cfg ns ne c (rows # script) = Running c'" and "r1 \<in> set rows"
    and "done_agents_per_env c (env_id (info r1)) = Some d" and "buffer_id cfg r1 \<notin> set d"
    and "\<forall>row\<in>set (rows @ concat script). quiet_for (env_id (info r1)) row"
  shows "\<forall>r\<in>set (concat script).
           \<not> (env_id (info r) = env_id (info r1) \<and> agent_id (obs r) = agent_id (obs r1))"
proof -
  from assms(1) obtain u where 1: "ce_tick cfg ne rows c = Inr u"
    and 2: "ce_loop cfg ns ne u script = Running c'"
    by (auto split: if_splits sum.splits)
  from assms(5) have q: "\<forall>row\<in>set rows. quiet_for (env_id (info r1)) row"
    and qs: "\<forall>row\<in>set (concat script). quiet_for (env_id (info r1)) row" by simp_all
  from ce_tick_marks[OF 1 assms(2,3,4) q] obtain f' where
    f': "tbd_filling u (env_id (info r1)) = Some f'" "agent_id (obs r1) < length f'"
      "f' ! agent_id (obs r1) = int (buffer_id cfg r1)" by blast
  then have "f' ! agent_id (obs r1) \<noteq> - 1" by simp
  from ce_loop_keeps[OF 2 f'(1,2) this qs] show ?thesis by simp
qed

lemma ma_lane_parts:
  assumes "ma_lane cfg i row s = Inr s'"
  shows "\<exists>s3. mark_done cfg i row (next_buffer_id cfg row)
                 (ma_same row (buffer_id cfg row) (next_buffer_id cfg row)
                    (ma_resolve row (next_buffer_id cfg row) s)) = Inr s3 \<and>
              store_pending cfg row (buffer_id cfg row) (next_buffer_id cfg row) s3 = Inr s'"
  using assms by (auto simp: ma_lane_def Let_def then_do_Inr)

lemma mark_done_tracker:
  assumes "mark_done cfg i row nb s = Inr s'"
  shows "done_agents_per_env s' (env_id (info row)) =
           (if done_flag row
            then map_option (\<lambda>d. d @ [nb]) (done_agents_per_env s (env_id (info row)))
            else done_agents_per_env s (env_id (info row)))"
  using assms by (auto simp: mark_done_def Let_def split: if_splits option.splits)

lemma mark_done_key:
  assumes "mark_done cfg i row nb s = Inr s'" and "done_flag row"
  shows "done_agents_per_env s (env_id (info row)) \<noteq> None"
  using assms by (auto simp: mark_done_def Let_def split: if_splits option.splits)

lemma store_pending_temp:
  assumes "store_pending cfg row b nb s = Inr s'"
  shows "temp_data s' =
           (if b \<noteq> nb \<and>
               (case done_agents_per_env s (env_id (info row)) of
                  None \<Rightarrow> False
                | Some d \<Rightarrow> length d \<noteq> agents_num cfg \<and> b \<notin> set d)
            then (temp_data s)(b \<mapsto> row) else temp_data s)"
  using assms by (auto simp: store_pending_def split: if_splits option.splits)

lemma store_pending_key:
  assumes "store_pending cfg row b nb s = Inr s'" and "b \<noteq> nb"
  shows "done_agents_per_env s (env_id (info row)) \<noteq> None"
  using assms by (auto simp: store_pending_def split: if_splits option.splits)

text \<open>The exact account of one lane.\<close>

lemma ma_lane_account:
  assumes "ma_lane cfg i row s = Inr s'" and "finite (dom (temp_data s))"
  shows "finite (dom (temp_data s')) \<and>
         length (buffer_ids_to_save s') + card (dom (temp_data s')) + lane_lost cfg row s =
           length (buffer_ids_to_save s) + card (dom (temp_data s)) + 1"
proof -
  let ?b = "buffer_id cfg row" and ?nb = "next_buffer_id cfg row"
  let ?e = "env_id (info row)"
  let ?s1 = "ma_resolve row ?nb s"
  let ?s2 = "ma_same row ?b ?nb ?s1"
  from ma_lane_parts[OF assms(1)] obtain s3 where 3: "mark_done cfg i row ?nb ?s2 = Inr s3"
    and 4: "store_pending cfg row ?b ?nb s3 = Inr s'" by blast
  from ma_resolve_count[OF assms(2), of row ?nb]
  have r: "finite (dom (temp_data ?s1))"
    "length (buffer_ids_to_save ?s1) + card (dom (temp_data ?s1))
           = length (buffer_ids_to_save s) + card (dom (temp_data s))" by simp_all
  have t1: "temp_data ?s1 = (temp_data s)(?nb := None)"
    by (auto simp: ma_resolve_def split: option.splits)
  have s2: "temp_data ?s2 = temp_data ?s1"
    "length (buffer_ids_to_save ?s2) = length (buffer_ids_to_save ?s1) + (if ?b = ?nb then 1 else 0)"
    by (simp_all add: ma_same_def)
  from mark_done_fields[OF 3] have s3: "temp_data s3 = temp_data ?s2"
    "buffer_ids_to_save s3 = buffer_ids_to_save ?s2" by simp_all
  have tr: "done_agents_per_env s3 ?e =
           (if done_flag row
            then map_option (\<lambda>d. d @ [?nb]) (done_agents_per_env s ?e)
            else done_agents_per_env s ?e)"
    using mark_done_tracker[OF 3] by simp
  note st = store_pending_temp[OF 4] store_pending_fields[OF 4]
  show ?thesis
  proof (cases "?b = ?nb")
    case True
    with st r s2 s3 show ?thesis by (simp add: lane_lost_def)
  next
    case False
    from store_pending_key[OF 4 False] tr obtain d where
      d: "done_agents_per_env s ?e = Some d"
      by (cases "done_agents_per_env s ?e") (auto split: if_splits)
    let ?d1 = "if done_flag row then d @ [?nb] else d"
    from tr d have tr': "done_agents_per_env s3 ?e = Some ?d1" by simp
    have tb: "temp_data s3 ?b = temp_data s ?b" using s3 s2 t1 False by simp
    have fin3: "finite (dom (temp_data s3))" using r s2 s3 by simp
    show ?thesis
    proof (cases "length ?d1 \<noteq> agents_num cfg \<and> ?b \<notin> set ?d1")
      case c: True
      with st tr' False have t': "temp_data s' = (temp_data s3)(?b \<mapsto> row)" by simp
      show ?thesis
      proof (cases "temp_data s ?b")
        case None
        with tb have "?b \<notin> dom (temp_data s3)" by auto
        with t' fin3 have "card (dom (temp_data s')) = card (dom (temp_data s3)) + 1"
          "finite (dom (temp_data s'))" by simp_all
        moreover have "lane_lost cfg row s = 0"
          using False d c None by (simp add: lane_lost_def Let_def)
        ultimately show ?thesis using st r s2 s3 False by simp
      next
        case (Some p)
        with tb have "?b \<in> dom (temp_data s3)" by auto
        with t' fin3 have "card (dom (temp_data s')) = card (dom (temp_data s3))"
          "finite (dom (temp_data s'))" by (simp_all add: insert_absorb)
        moreover have "lane_lost cfg row s = 1"
          using False d c Some by (simp add: lane_lost_def Let_def)
        ultimately show ?thesis using st r s2 s3 False by simp
      qed
    next
      case c: False
      with st tr' False have t': "temp_data s' = temp_data s3" by auto
      moreover have "lane_lost cfg row s = 1"
        using False d c by (simp add: lane_lost_def Let_def)
      ultimately show ?thesis using st r s2 s3 False fin3 by simp
    qed
  qed
qed

lemma ma_lane_next_none:
  assumes "ma_lane cfg i row s = Inr s'"
  shows "temp_data s' (next_buffer_id cfg row) = None"
proof -
  let ?b = "buffer_id cfg row" and ?nb = "next_buffer_id cfg row"
  from ma_lane_parts[OF assms(1)] obtain s3 where
    3: "mark_done cfg i row ?nb (ma_same row ?b ?nb (ma_resolve row ?nb s)) = Inr s3"
    and 4: "store_pending cfg row ?b ?nb s3 = Inr s'" by blast
  have "temp_data (ma_resolve row ?nb s) ?nb = None"
    by (auto simp: ma_resolve_def split: option.splits)
  with mark_done_fields[OF 3] have "temp_data s3 ?nb = None" by simp
  with store_pending_temp[OF 4] show ?thesis by (auto split: if_splits)
qed

lemma lane_lost_begin_tick [simp]: "lane_lost cfg row (begin_tick s) = lane_lost cfg row s"
  by (simp only: lane_lost_def begin_tick_fields)

lemma ma_tick_single_account:
  assumes "ma_tick cfg ne [row] s = Inr t" and "finite (dom (temp_data s))"
  shows "finite (dom (temp_data t)) \<and>
         flushed t + card (dom (temp_data t)) + lane_lost cfg row s =
           flushed s + card (dom (temp_data s)) + 1"
proof -
  from assms(1) obtain s1 where 1: "ma_lane cfg 0 row (begin_tick s) = Inr s1"
    and 2: "ma_finish ne (ma_flush s1) = Inr t"
    by (auto simp: ma_tick_Inr then_do_Inr)
  from ma_lane_account[OF 1] assms(2)
  have a: "finite (dom (temp_data s1))"
    "length (buffer_ids_to_save s1) + card (dom (temp_data s1)) + lane_lost cfg row s =
       card (dom (temp_data s)) + 1" by simp_all
  have "flushed t = flushed s + length (buffer_ids_to_save s1)"
    using ma_lane_fields[OF 1] ma_finish_fields[OF 2] by (simp add: flushed_def)
  with a ma_finish_fields[OF 2] show ?thesis by simp
qed

lemma lane_lost_clean:
  assumes "done_agents_per_env s (env_id (info row)) = Some []"
    and "temp_data s (buffer_id cfg row) = None" and "2 \<le> agents_num cfg"
  shows "lane_lost cfg row s = 0"
  using assms by (auto simp: lane_lost_def Let_def)

lemma target_reached_episodes:
  "episode_count t = episode_count s \<Longrightarrow>
   target_reached None ne t = target_reached None ne s"
  by (simp add: target_reached_def split: option.splits)

lemma ma_loop_episode:
  "ma_loop cfg None ne s script = Running s' \<or> ma_loop cfg None ne s script = Returned s' \<Longrightarrow>
   episode_stream e a script \<Longrightarrow> done_agents_per_env s e = Some [] \<Longrightarrow>
   temp_data s (buffer_id_of cfg e a) = None \<Longrightarrow> finite (dom (temp_data s)) \<Longrightarrow>
   2 \<le> agents_num cfg \<Longrightarrow> \<not> target_reached None ne s \<Longrightarrow>
   flushed s' + card (dom (temp_data s')) = flushed s + card (dom (temp_data s)) + length script"
proof (induction script arbitrary: s a)
  case Nil
  then show ?case by simp
next
  case (Cons rows script)
  from Cons.prems(2) obtain row where rows: "rows = [row]"
    and row: "env_id (info row) = e" "agent_id (obs row) = a"
      "done_flag row \<longrightarrow> script = []"
      "episode_stream e (agent_id (obs_next row)) script"
    by (auto split: list.splits)
  from Cons.prems(1) obtain t where t: "ma_tick cfg ne rows s = Inr t"
    by (auto split: if_splits sum.splits)
  from t rows obtain s1 where 1: "ma_lane cfg 0 row (begin_tick s) = Inr s1"
    and 2: "ma_finish ne (ma_flush s1) = Inr t"
    by (auto simp: ma_tick_Inr then_do_Inr)
  have "lane_lost cfg row s = 0"
    using lane_lost_clean[of s row cfg] Cons.prems(3,4,6) row by simp
  with ma_tick_single_account[OF t[unfolded rows] Cons.prems(5)]
  have c: "finite (dom (temp_data t))"
    "flushed t + card (dom (temp_data t)) = flushed s + card (dom (temp_data s)) + 1"
    by simp_all
  show ?case
  proof (cases "done_flag row")
    case True
    with row have "script = []" by simp
    with Cons.prems(1) t have "s' = t" by (auto split: if_splits)
    with c \<open>script = []\<close> show ?thesis by simp
  next
    case False
    from ma_lane_event[OF 1] False
    have e1: "done_agents_per_env s1 = done_agents_per_env s" "done_envs s1 = []" by auto
    with 2 have t': "t = ma_flush s1" by (simp add: ma_finish_def)
    have ec: "episode_count t = episode_count s"
      using t' ma_lane_fields[OF 1] by simp
    from target_reached_episodes[OF ec] Cons.prems(7)
    have nt: "\<not> target_reached None ne t" by simp
    with Cons.prems(1) t have l: "ma_loop cfg None ne t script = Running s' \<or>
      ma_loop cfg None ne t script = Returned s'" by (auto split: if_splits)
    have tr: "done_agents_per_env t e = Some []" using t' e1 Cons.prems(3) by simp
    have tn: "temp_data t (buffer_id_of cfg e (agent_id (obs_next row))) = None"
      using ma_lane_next_none[OF 1] t' row(1) by simp
    from Cons.IH[OF l row(4) tr tn c(1) Cons.prems(6) nt] c(2) show ?thesis by simp
  qed
qed

lemma ma_collect_episode:
  assumes "ma_collect cfg None ne s script = Running s' \<or>
           ma_collect cfg None ne s script = Returned s'"
    and "episode_stream e a script" and "done_agents_per_env s e = Some []"
    and "temp_data s (buffer_id_of cfg e a) = None" and "finite (dom (temp_data s))"
    and "2 \<le> agents_num cfg"
  shows "flushed s' + card (dom (temp_data s')) =
           flushed s + card (dom (temp_data s)) + length script"
proof -
  from assms(1) obtain ready w m where
    l: "ma_loop cfg None ne (begin_collect ready w s) script = Running s' \<or>
        ma_loop cfg None ne (begin_collect ready w s) script = Returned s'"
    and ne: "ne = Some m" "0 < m"
    by (auto simp: ma_collect_def collect_targets_def
        split: sum.splits prod.splits option.splits if_splits)
  have b: "temp_data (begin_collect ready w s) = temp_data s"
    "flushed (begin_collect ready w s) = flushed s"
    "done_agents_per_env (begin_collect ready w s) = done_agents_per_env s"
    "\<not> target_reached None ne (begin_collect ready w s)"
    using ne by (simp_all add: begin_collect_def flushed_def target_reached_def)
  from ma_loop_episode[OF l assms(2)] assms(3-) b show ?thesis by simp
qed

lemma ma_lane_flushes:
  assumes "ma_lane cfg i row s = Inr s'"
  shows "(\<forall>k p. temp_data s' k = Some p \<longrightarrow>
            temp_data s k = Some p \<or> p = row \<and> k = buffer_id cfg row) \<and>
         (\<exists>xs ids. experience_to_save s' = experience_to_save s @ xs \<and>
            buffer_ids_to_save s' = buffer_ids_to_save s @ ids \<and> length xs = length ids \<and>
            (\<forall>xk\<in>set (zip xs ids).
               own_outcome cfg row xk \<or>
               (\<exists>p. temp_data s (snd xk) = Some p \<and> fst xk = complete_pending p row \<and>
                  snd xk = next_buffer_id cfg row)))"
proof -
  let ?b = "buffer_id cfg row" and ?nb = "next_buffer_id cfg row"
  let ?s1 = "ma_resolve row ?nb s"
  let ?s2 = "ma_same row ?b ?nb ?s1"
  from ma_lane_parts[OF assms] obtain s3 where 3: "mark_done cfg i row ?nb ?s2 = Inr s3"
    and 4: "store_pending cfg row ?b ?nb s3 = Inr s'" by blast
  have t3: "temp_data s3 = (temp_data s)(?nb := None)"
    using mark_done_fields[OF 3] by (auto simp: ma_resolve_def split: option.splits)
  have a: "\<forall>k p. temp_data s' k = Some p \<longrightarrow>
            temp_data s k = Some p \<or> p = row \<and> k = ?b"
    using store_pending_temp[OF 4] t3 by (auto split: if_splits)
  have e: "experience_to_save s' = experience_to_save ?s2"
    "buffer_ids_to_save s' = buffer_ids_to_save ?s2"
    using mark_done_fields[OF 3] store_pending_fields[OF 4] by simp_all
  have "\<exists>xs ids. experience_to_save ?s2 = experience_to_save s @ xs \<and>
            buffer_ids_to_save ?s2 = buffer_ids_to_save s @ ids \<and> length xs = length ids \<and>
            (\<forall>xk\<in>set (zip xs ids).
               own_outcome cfg row xk \<or>
               (\<exists>p. temp_data s (snd xk) = Some p \<and> fst xk = complete_pending p row \<and>
                  snd xk = ?nb))"
  proof (cases "temp_data s ?nb")
    case None
    show ?thesis
    proof (cases "?b = ?nb")
      case True
      with None show ?thesis
        by (intro exI[of _ "[row]"] exI[of _ "[?b]"])
           (simp add: ma_resolve_def ma_same_def own_outcome_def)
    next
      case False
      with None show ?thesis
        by (intro exI[of _ "[]"]) (simp add: ma_resolve_def ma_same_def)
    qed
  next
    case (Some p)
    show ?thesis
    proof (cases "?b = ?nb")
      case True
      with Some show ?thesis
        by (intro exI[of _ "[complete_pending p row, row]"] exI[of _ "[?nb, ?b]"])
           (simp add: ma_resolve_def ma_same_def own_outcome_def)
    next
      case False
      with Some show ?thesis
        by (intro exI[of _ "[complete_pending p row]"] exI[of _ "[?nb]"])
           (simp add: ma_resolve_def ma_same_def)
    qed
  qed
  with a e show ?thesis by simp
qed

lemma ma_lanes_flushes:
  "ma_lanes cfg i rows s = Inr s' \<Longrightarrow>
   (\<forall>k p. temp_data s' k = Some p \<longrightarrow>
      temp_data s k = Some p \<or> p \<in> set rows \<and> buffer_id cfg p = k) \<and>
   (\<exists>xs ids. experience_to_save s' = experience_to_save s @ xs \<and>
      buffer_ids_to_save s' = buffer_ids_to_save s @ ids \<and> length xs = length ids \<and>
      (\<forall>xk\<in>set (zip xs ids). \<exists>row\<in>set rows.
         own_outcome cfg row xk \<or>
         (\<exists>p. fst xk = complete_pending p row \<and> snd xk = next_buffer_id cfg row \<and>
            (temp_data s (snd xk) = Some p \<or> p \<in> set rows \<and> buffer_id cfg p = snd xk))))"
proof (induction rows arbitrary: i s)
  case Nil
  then show ?case by simp
next
  case (Cons row rows)
  then obtain s1 where 1: "ma_lane cfg i row s = Inr s1" and 2: "ma_lanes cfg (Suc i) rows s1 = Inr s'"
    by (auto simp: then_do_Inr)
  from ma_lane_flushes[OF 1] obtain xs1 ids1 where
    p1: "\<forall>k p. temp_data s1 k = Some p \<longrightarrow>
            temp_data s k = Some p \<or> p = row \<and> k = buffer_id cfg row"
    and a: "experience_to_save s1 = experience_to_save s @ xs1"
      "buffer_ids_to_save s1 = buffer_ids_to_save s @ ids1" "length xs1 = length ids1"
      "\<forall>xk\<in>set (zip xs1 ids1).
               own_outcome cfg row xk \<or>
               (\<exists>p. temp_data s (snd xk) = Some p \<and> fst xk = complete_pending p row \<and>
                  snd xk = next_buffer_id cfg row)"
    by blast
  from Cons.IH[OF 2] obtain xs2 ids2 where
    p2: "\<forall>k p. temp_data s' k = Some p \<longrightarrow>
      temp_data s1 k = Some p \<or> p \<in> set rows \<and> buffer_id cfg p = k"
    and b: "experience_to_save s' = experience_to_save s1 @ xs2"
      "buffer_ids_to_save s' = buffer_ids_to_save s1 @ ids2" "length xs2 = length ids2"
      "\<forall>xk\<in>set (zip xs2 ids2). \<exists>r\<in>set rows.
         own_outcome cfg r xk \<or>
         (\<exists>p. fst xk = complete_pending p r \<and> snd xk = next_buffer_id cfg r \<and>
            (temp_data s1 (snd xk) = Some p \<or> p \<in> set rows \<and> buffer_id cfg p = snd xk))"
    by blast
  have pend: "\<forall>k p. temp_data s' k = Some p \<longrightarrow>
      temp_data s k = Some p \<or> p \<in> set (row # rows) \<and> buffer_id cfg p = k"
    using p1 p2 by fastforce
  have z: "set (zip (xs1 @ xs2) (ids1 @ ids2)) = set (zip xs1 ids1) \<union> set (zip xs2 ids2)"
    using a(3) by simp
  have f1: "\<forall>xk\<in>set (zip xs1 ids1). \<exists>r\<in>set (row # rows).
         own_outcome cfg r xk \<or>
         (\<exists>p. fst xk = complete_pending p r \<and> snd xk = next_buffer_id cfg r \<and>
            (temp_data s (snd xk) = Some p \<or>
             p \<in> set (row # rows) \<and> buffer_id cfg p = snd xk))"
    using a(4) by fastforce
  have f2: "\<forall>xk\<in>set (zip xs2 ids2). \<exists>r\<in>set (row # rows).
         own_outcome cfg r xk \<or>
         (\<exists>p. fst xk = complete_pending p r \<and> snd xk = next_buffer_id cfg r \<and>
            (temp_data s (snd xk) = Some p \<or>
             p \<in> set (row # rows) \<and> buffer_id cfg p = snd xk))"
  proof
    fix xk assume "xk \<in> set (zip xs2 ids2)"
    with b(4) obtain r where r: "r \<in> set rows"
      "own_outcome cfg r xk \<or>
         (\<exists>p. fst xk = complete_pending p r \<and> snd xk = next_buffer_id cfg r \<and>
            (temp_data s1 (snd xk) = Some p \<or> p \<in> set rows \<and> buffer_id cfg p = snd xk))"
      by blast
    from r(2) show "\<exists>r\<in>set (row # rows).
         own_outcome cfg r xk \<or>
         (\<exists>p. fst xk = complete_pending p r \<and> snd xk = next_buffer_id cfg r \<and>
            (temp_data s (snd xk) = Some p \<or>
             p \<in> set (row # rows) \<and> buffer_id cfg p = snd xk))"
    proof
      assume "own_outcome cfg r xk"
      with r(1) show ?thesis by auto
    next
      assume "\<exists>p. fst xk = complete_pending p r \<and> snd xk = next_buffer_id cfg r \<and>
            (temp_data s1 (snd xk) = Some p \<or> p \<in> set rows \<and> buffer_id cfg p = snd xk)"
      then obtain p where p: "fst xk = complete_pending p r" "snd xk = next_buffer_id cfg r"
        "temp_data s1 (snd xk) = Some p \<or> p \<in> set rows \<and> buffer_id cfg p = snd xk"
        by blast
      from p(3) p1 have "temp_data s (snd xk) = Some p \<or>
             p \<in> set (row # rows) \<and> buffer_id cfg p = snd xk" by fastforce
      with p(1,2) r(1) show ?thesis by auto
    qed
  qed
  from f1 f2 z have "\<forall>xk\<in>set (zip (xs1 @ xs2) (ids1 @ ids2)). \<exists>r\<in>set (row # rows).
         own_outcome cfg r xk \<or>
         (\<exists>p. fst xk = complete_pending p r \<and> snd xk = next_buffer_id cfg r \<and>
            (temp_data s (snd xk) = Some p \<or>
             p \<in> set (row # rows) \<and> buffer_id cfg p = snd xk))"
    by blast
  with pend a b show ?case
    by (intro conjI exI[of _ "xs1 @ xs2"] exI[of _ "ids1 @ ids2"]) simp_all
qed

lemma ma_tick_flushes:
  assumes "ma_tick cfg ne rows s = Inr t" and "well_keyed cfg s"
  shows "well_keyed cfg t \<and>
         length (experience_to_save t) = length (buffer_ids_to_save t) \<and>
         (\<forall>xk\<in>set (zip (experience_to_save t) (buffer_ids_to_save t)). \<exists>row\<in>set rows.
            own_outcome cfg row xk \<or>
            (\<exists>p. completed_by cfg row p xk \<and>
               (temp_data s (snd xk) = Some p \<or> p \<in> set rows)))"
proof -
  from assms(1) obtain s1 where 1: "ma_lanes cfg 0 rows (begin_tick s) = Inr s1"
    and 2: "ma_finish ne (ma_flush s1) = Inr t"
    by (auto simp: ma_tick_Inr)
  from ma_lanes_flushes[OF 1] obtain xs ids where
    p: "\<forall>k p. temp_data s1 k = Some p \<longrightarrow>
      temp_data s k = Some p \<or> p \<in> set rows \<and> buffer_id cfg p = k"
    and a: "experience_to_save s1 = xs" "buffer_ids_to_save s1 = ids" "length xs = length ids"
      "\<forall>xk\<in>set (zip xs ids). \<exists>row\<in>set rows.
         own_outcome cfg row xk \<or>
         (\<exists>p. fst xk = complete_pending p row \<and> snd xk = next_buffer_id cfg row \<and>
            (temp_data s (snd xk) = Some p \<or> p \<in> set rows \<and> buffer_id cfg p = snd xk))"
    by auto
  note f = ma_finish_fields[OF 2]
  have wk: "well_keyed cfg t"
    using p assms(2) f unfolding well_keyed_def by (metis ma_flush_fields(1))
  have "\<forall>xk\<in>set (zip xs ids). \<exists>row\<in>set rows.
            own_outcome cfg row xk \<or>
            (\<exists>p. completed_by cfg row p xk \<and>
               (temp_data s (snd xk) = Some p \<or> p \<in> set rows))"
  proof
    fix xk assume "xk \<in> set (zip xs ids)"
    with a(4) obtain row where r: "row \<in> set rows"
      "own_outcome cfg row xk \<or>
         (\<exists>p. fst xk = complete_pending p row \<and> snd xk = next_buffer_id cfg row \<and>
            (temp_data s (snd xk) = Some p \<or> p \<in> set rows \<and> buffer_id cfg p = snd xk))"
      by blast
    from r(2) show "\<exists>row\<in>set rows.
            own_outcome cfg row xk \<or>
            (\<exists>p. completed_by cfg row p xk \<and>
               (temp_data s (snd xk) = Some p \<or> p \<in> set rows))"
    proof
      assume "own_outcome cfg row xk"
      with r(1) show ?thesis by auto
    next
      assume "\<exists>p. fst xk = complete_pending p row \<and> snd xk = next_buffer_id cfg row \<and>
            (temp_data s (snd xk) = Some p \<or> p \<in> set rows \<and> buffer_id cfg p = snd xk)"
      then obtain p where q: "fst xk = complete_pending p row"
        "snd xk = next_buffer_id cfg row"
        "temp_data s (snd xk) = Some p \<or> p \<in> set rows \<and> buffer_id cfg p = snd xk"
        by blast
      from q(3) assms(2) have "buffer_id cfg p = snd xk"
        by (auto simp: well_keyed_def)
      with q have "completed_by cfg row p xk \<and>
               (temp_data s (snd xk) = Some p \<or> p \<in> set rows)"
        by (auto simp: completed_by_def)
      with r(1) show ?thesis by blast
    qed
  qed
  with wk a f show ?thesis by simp
qed

section \<open>The claims\<close>










text \<open>
  C3, as the code has it.  \<^verbatim>\<open>temp_data\<close> is a dictionary, so it holds no or one row per
  buffer id; the store of a pending row is a plain assignment: where the lane stores, the
  row is the buffer id's pending row afterwards whether or not one was there before.
  The lane of \<^verbatim>\<open>MultiAgentCollector\<close> raises nothing but a key error.
\<close>

theorem pending_store_overwrites:
  "(b \<noteq> nb \<and> done_agents_per_env s (env_id (info row)) = Some d \<and>
    length d \<noteq> agents_num cfg \<and> b \<notin> set d \<longrightarrow>
      store_pending cfg row b nb s = Inr (s\<lparr>temp_data := (temp_data s)(b \<mapsto> row)\<rparr>)) \<and>
   (ma_lane cfg i row s = Inl e \<longrightarrow> e = KeyError) \<and>
   (ma_lane cfg i row s = Inr s' \<and> buffer_id cfg row \<noteq> next_buffer_id cfg row \<and>
    done_agents_per_env s' (env_id (info row)) = Some d' \<and>
    length d' \<noteq> agents_num cfg \<and> buffer_id cfg row \<notin> set d' \<longrightarrow>
      temp_data s' (buffer_id cfg row) = Some row) \<and>
   (ce_lane cfg i row c = Inr c' \<and> buffer_id cfg row \<noteq> next_buffer_id cfg row \<and>
    done_agents_per_env c' (env_id (info row)) = Some d' \<and>
    length d' \<noteq> agents_num cfg \<and> buffer_id cfg row \<notin> set d' \<longrightarrow>
      temp_data c' (buffer_id cfg row) = Some row)"
proof (intro conjI impI)
  assume "b \<noteq> nb \<and> done_agents_per_env s (env_id (info row)) = Some d \<and>
    length d \<noteq> agents_num cfg \<and> b \<notin> set d"
  then show "store_pending cfg row b nb s = Inr (s\<lparr>temp_data := (temp_data s)(b \<mapsto> row)\<rparr>)"
    by (simp add: store_pending_def)
next
  assume "ma_lane cfg i row s = Inl e"
  then show "e = KeyError" by (rule ma_lane_Inl)
next
  assume "ma_lane cfg i row s = Inr s' \<and> buffer_id cfg row \<noteq> next_buffer_id cfg row \<and>
    done_agents_per_env s' (env_id (info row)) = Some d' \<and>
    length d' \<noteq> agents_num cfg \<and> buffer_id cfg row \<notin> set d'"
  then show "temp_data s' (buffer_id cfg row) = Some row"
    using ma_lane_stores by blast
next
  assume "ce_lane cfg i row c = Inr c' \<and> buffer_id cfg row \<noteq> next_buffer_id cfg row \<and>
    done_agents_per_env c' (env_id (info row)) = Some d' \<and>
    length d' \<noteq> agents_num cfg \<and> buffer_id cfg row \<notin> set d'"
  then show "temp_data c' (buffer_id cfg row) = Some row"
    using ce_lane_stores by blast
qed

theorem pending_store_overwrites_witness:
  "temp_data (ma_pending 0 (turn 0 0 1 1 False False False)) 0 =
     Some (turn 0 0 1 1 False False False) \<and>
   store_pending (two_agents 1) (turn 0 0 1 3 False False False) 0 1
       (ma_pending 0 (turn 0 0 1 1 False False False)) =
     Inr ((ma_pending 0 (turn 0 0 1 1 False False False))
            \<lparr>temp_data := (temp_data (ma_pending 0 (turn 0 0 1 1 False False False)))
               (0 \<mapsto> turn 0 0 1 3 False False False)\<rparr>) \<and>
   (\<exists>s'. ma_lane (two_agents 1) 0 (turn 0 0 1 3 False False False)
            (ma_pending 0 (turn 0 0 1 1 False False False)) = Inr s' \<and>
      temp_data s' 0 = Some (turn 0 0 1 3 False False False)) \<and>
   (\<exists>c'. ce_lane (two_agents 1) 0 (turn 0 0 1 3 False False False)
            (ce_pending 0 (turn 0 0 1 1 False False False)) = Inr c' \<and>
      temp_data c' 0 = Some (turn 0 0 1 3 False False False))"
proof -
  let ?old = "turn 0 0 1 1 False False False" and ?new = "turn 0 0 1 3 False False False"
  have ids: "buffer_id (two_agents 1) ?new = 0" "next_buffer_id (two_agents 1) ?new = 1"
    "env_id (info ?new) = 0" "agents_num (two_agents 1) = 2"
    by (simp_all add: shared_defs)
  have 0: "temp_data (ma_pending 0 ?old) 0 = Some ?old"
    "done_agents_per_env (ma_pending 0 ?old) 0 = Some []"
    by (simp_all add: ma_pending_def ma_reset_def two_agents_def)
  have h1: "(0::nat) \<noteq> 1 \<and> done_agents_per_env (ma_pending 0 ?old) (env_id (info ?new)) = Some [] \<and>
    length ([]::nat list) \<noteq> agents_num (two_agents 1) \<and> (0::nat) \<notin> set []"
    using 0 ids by simp
  note a = pending_store_overwrites [where cfg = "two_agents 1" and row = ?new and b = 0
      and nb = 1 and s = "ma_pending 0 ?old" and d = "[]", THEN conjunct1, THEN mp, OF h1]
  have "case ma_lane (two_agents 1) 0 ?new (ma_pending 0 ?old) of
          Inl e \<Rightarrow> False | Inr s' \<Rightarrow> done_agents_per_env s' 0 = Some []"
    by (simp add: shared_defs ma_defs ma_pending_def)
  then obtain s' where s: "ma_lane (two_agents 1) 0 ?new (ma_pending 0 ?old) = Inr s'"
    "done_agents_per_env s' 0 = Some []"
    by (auto dest: sum_case_obtain)
  have h2: "ma_lane (two_agents 1) 0 ?new (ma_pending 0 ?old) = Inr s' \<and>
    buffer_id (two_agents 1) ?new \<noteq> next_buffer_id (two_agents 1) ?new \<and>
    done_agents_per_env s' (env_id (info ?new)) = Some [] \<and>
    length ([]::nat list) \<noteq> agents_num (two_agents 1) \<and> buffer_id (two_agents 1) ?new \<notin> set []"
    using s ids by simp
  from pending_store_overwrites [where cfg = "two_agents 1" and row = ?new and i = 0
      and s = "ma_pending 0 ?old" and s' = s' and d' = "[]",
      THEN conjunct2, THEN conjunct2, THEN conjunct1, THEN mp, OF h2] ids
  have b: "temp_data s' 0 = Some ?new" by simp
  have "case ce_lane (two_agents 1) 0 ?new (ce_pending 0 ?old) of
          Inl e \<Rightarrow> False | Inr c' \<Rightarrow> done_agents_per_env c' 0 = Some []"
    by (simp add: shared_defs ce_defs ce_pending_def numeral_2_eq_2)
  then obtain c' where c: "ce_lane (two_agents 1) 0 ?new (ce_pending 0 ?old) = Inr c'"
    "done_agents_per_env c' 0 = Some []"
    by (auto dest: sum_case_obtain)
  have h3: "ce_lane (two_agents 1) 0 ?new (ce_pending 0 ?old) = Inr c' \<and>
    buffer_id (two_agents 1) ?new \<noteq> next_buffer_id (two_agents 1) ?new \<and>
    done_agents_per_env c' (env_id (info ?new)) = Some [] \<and>
    length ([]::nat list) \<noteq> agents_num (two_agents 1) \<and> buffer_id (two_agents 1) ?new \<notin> set []"
    using c ids by simp
  from pending_store_overwrites [where cfg = "two_agents 1" and row = ?new and i = 0
      and c = "ce_pending 0 ?old" and c' = c' and d' = "[]",
      THEN conjunct2, THEN conjunct2, THEN conjunct2, THEN mp, OF h3] ids
  have d: "temp_data c' 0 = Some ?new" by simp
  from 0(1) a s(1) b c(1) d show ?thesis by blast
qed


text \<open>
  C3 as stated fails in both collectors: after the reset of the environment the row that
  agent \<open>A\<close> left pending in the first episode is still stored, and the first turn of
  \<open>A\<close> in the next episode replaces it without an error.
\<close>

theorem duplicate_pending_counterexample:
  "(case ma_collect (two_agents 1) (Some 100) None (ma_reset (two_agents 1)) (take 3 restart_script) of
      Running u \<Rightarrow> temp_data u 0 = Some (turn 0 0 1 1 False False False) \<and> episode_count u = 1
    | _ \<Rightarrow> False) \<and>
   (case ma_collect (two_agents 1) (Some 100) None (ma_reset (two_agents 1)) restart_script of
      Running u \<Rightarrow> temp_data u 0 = Some (turn 0 0 1 3 False False False) \<and>
        map snd (buffer u) = [[0], [1]]
    | _ \<Rightarrow> False) \<and>
   (case ce_collect (two_agents 1) (Some 100) None (ce_reset (two_agents 1)) (take 3 restart_script) of
      Running u \<Rightarrow> temp_data u 0 = Some (turn 0 0 1 1 False False False) \<and> episode_count u = 1
    | _ \<Rightarrow> False) \<and>
   (case ce_collect (two_agents 1) (Some 100) None (ce_reset (two_agents 1)) restart_script of
      Running u \<Rightarrow> temp_data u 0 = Some (turn 0 0 1 3 False False False) \<and>
        map snd (buffer u) = [[0]]
    | _ \<Rightarrow> False)"
  by (simp add: shared_defs ma_defs ce_defs restart_script_def numeral_2_eq_2)

text \<open>
  C4, as the code has it.  In both collectors a lane is recorded in \<^verbatim>\<open>done_envs\<close> exactly
  when its done flag is set and, with the next buffer id appended, the environment's
  done list has \<^verbatim>\<open>agents_num\<close> entries or the info has \<^verbatim>\<open>explicit_reset\<close>.  The done list
  is a list: it only grows, by the next buffer id of each done lane.  After the tick the
  done list of every recorded environment is empty, and in the collective collector its
  \<^verbatim>\<open>ready\<close> and \<^verbatim>\<open>filling\<close> arrays hold no buffer id.
\<close>

theorem episode_completion:
  "(ma_lane cfg i row s = Inr s' \<longrightarrow>
      (done_flag row \<longrightarrow>
         (\<exists>d. done_agents_per_env s (env_id (info row)) = Some d \<and>
            done_agents_per_env s' =
              (done_agents_per_env s)(env_id (info row) \<mapsto> d @ [next_buffer_id cfg row]))) \<and>
      (\<not> done_flag row \<longrightarrow> done_agents_per_env s' = done_agents_per_env s) \<and>
      (done_envs s' = done_envs s @ [event_of i row s'] \<or> done_envs s' = done_envs s) \<and>
      (done_envs s' = done_envs s @ [event_of i row s'] \<longleftrightarrow>
         done_flag row \<and>
         (\<exists>d. done_agents_per_env s' (env_id (info row)) = Some d \<and>
            (length d = agents_num cfg \<or> explicit_reset (info row))))) \<and>
   (ce_lane cfg i row c = Inr c' \<longrightarrow>
      (done_flag row \<longrightarrow>
         (\<exists>d. done_agents_per_env c (env_id (info row)) = Some d \<and>
            done_agents_per_env c' =
              (done_agents_per_env c)(env_id (info row) \<mapsto> d @ [next_buffer_id cfg row]))) \<and>
      (\<not> done_flag row \<longrightarrow> done_agents_per_env c' = done_agents_per_env c) \<and>
      (done_envs c' = done_envs c @ [event_of i row c'] \<or> done_envs c' = done_envs c) \<and>
      (done_envs c' = done_envs c @ [event_of i row c'] \<longleftrightarrow>
         done_flag row \<and>
         (\<exists>d. done_agents_per_env c' (env_id (info row)) = Some d \<and>
            (length d = agents_num cfg \<or> explicit_reset (info row))))) \<and>
   (ma_tick cfg ne rows s = Inr t \<longrightarrow>
      (\<forall>ev\<in>set (done_envs t). done_agents_per_env t (fst (snd ev)) = Some [])) \<and>
   (ce_tick cfg ne rows c = Inr u \<longrightarrow>
      (\<forall>ev\<in>set (done_envs u).
         done_agents_per_env u (fst (snd ev)) = Some [] \<and>
         tbd_ready u (fst (snd ev)) = Some (empty_slots cfg) \<and>
         tbd_filling u (fst (snd ev)) = Some (empty_slots cfg))) \<and>
   live (empty_slots cfg) = []"
  using ma_lane_event[of cfg i row s s'] ce_lane_event[of cfg i row c c']
    ma_tick_cleared[of cfg ne rows s t] ce_tick_cleared[of cfg ne rows c u]
    live_empty_slots[of cfg]
  by blast

theorem episode_completion_witness:
  "(\<exists>s'. ma_lane (two_agents 1) 0 (turn 0 1 1 2 True False True) (ma_reset (two_agents 1)) = Inr s' \<and>
      done_envs s' = [(0, 0, 0)] \<and> done_agents_per_env s' 0 = Some [1]) \<and>
   (\<exists>c'. ce_lane (two_agents 1) 0 (turn 0 0 0 0 True True True) (ce_reset (two_agents 1)) = Inr c' \<and>
      done_envs c' = [(0, 0, 0)] \<and> done_agents_per_env c' 0 = Some [0]) \<and>
   (\<exists>t. ma_tick (two_agents 1) None [turn 0 1 1 2 True False True] (ma_reset (two_agents 1)) = Inr t \<and>
      done_envs t = [(0, 0, 0)] \<and> done_agents_per_env t 0 = Some []) \<and>
   (\<exists>u. ce_tick (two_agents 1) None [turn 0 0 0 0 True True True] (ce_reset (two_agents 1)) = Inr u \<and>
      done_envs u = [(0, 0, 0)] \<and> done_agents_per_env u 0 = Some [] \<and>
      tbd_ready u 0 = Some (empty_slots (two_agents 1)) \<and>
      tbd_filling u 0 = Some (empty_slots (two_agents 1)))"
proof -
  let ?cfg = "two_agents 1"
  let ?rb = "turn 0 1 1 2 True False True" and ?ra = "turn 0 0 0 0 True True True"
  have "case ma_lane ?cfg 0 ?rb (ma_reset ?cfg) of Inl e \<Rightarrow> False
        | Inr s' \<Rightarrow> done_envs s' = [(0, 0, 0)] \<and> done_agents_per_env s' 0 = Some [1]"
    by (simp add: shared_defs ma_defs)
  then obtain s' where s: "ma_lane ?cfg 0 ?rb (ma_reset ?cfg) = Inr s'"
    "done_envs s' = [(0, 0, 0)]" "done_agents_per_env s' 0 = Some [1]"
    by (auto dest: sum_case_obtain)
  have "case ce_lane ?cfg 0 ?ra (ce_reset ?cfg) of Inl e \<Rightarrow> False
        | Inr c' \<Rightarrow> done_envs c' = [(0, 0, 0)] \<and> done_agents_per_env c' 0 = Some [0]"
    by (simp add: shared_defs ce_defs numeral_2_eq_2)
  then obtain c' where c: "ce_lane ?cfg 0 ?ra (ce_reset ?cfg) = Inr c'"
    "done_envs c' = [(0, 0, 0)]" "done_agents_per_env c' 0 = Some [0]"
    by (auto dest: sum_case_obtain)
  have "case ma_tick ?cfg None [?rb] (ma_reset ?cfg) of Inl e \<Rightarrow> False
        | Inr t \<Rightarrow> done_envs t = [(0, 0, 0)]"
    by (simp add: shared_defs ma_defs)
  then obtain t where t: "ma_tick ?cfg None [?rb] (ma_reset ?cfg) = Inr t"
    "done_envs t = [(0, 0, 0)]"
    by (auto dest: sum_case_obtain)
  have "case ce_tick ?cfg None [?ra] (ce_reset ?cfg) of Inl e \<Rightarrow> False
        | Inr u \<Rightarrow> done_envs u = [(0, 0, 0)]"
    by (simp add: shared_defs ce_defs numeral_2_eq_2)
  then obtain u where u: "ce_tick ?cfg None [?ra] (ce_reset ?cfg) = Inr u"
    "done_envs u = [(0, 0, 0)]"
    by (auto dest: sum_case_obtain)
  from episode_completion [where cfg = ?cfg and ne = None and rows = "[?rb]"
      and s = "ma_reset ?cfg" and t = t,
      THEN conjunct2, THEN conjunct2, THEN conjunct1, THEN mp, OF t(1)] t(2)
  have 1: "done_agents_per_env t 0 = Some []" by simp
  from episode_completion [where cfg = ?cfg and ne = None and rows = "[?ra]"
      and c = "ce_reset ?cfg" and u = u,
      THEN conjunct2, THEN conjunct2, THEN conjunct2, THEN conjunct1, THEN mp, OF u(1)] u(2)
  have 2: "done_agents_per_env u 0 = Some [] \<and>
      tbd_ready u 0 = Some (empty_slots ?cfg) \<and> tbd_filling u 0 = Some (empty_slots ?cfg)"
    by simp
  from s c t u 1 2 show ?thesis by blast
qed


text \<open>
  C4 as stated fails: a lane with \<^verbatim>\<open>explicit_reset\<close> in its info and no done flag records
  no completion, in either collector.
\<close>

theorem episode_completion_counterexample:
  "explicit_reset (info (turn 0 0 0 0 False False True)) \<and>
   (case ma_tick (two_agents 1) None [turn 0 0 0 0 False False True] (ma_reset (two_agents 1)) of
      Inr t \<Rightarrow> done_envs t = [] \<and> episode_count t = 0
    | Inl e \<Rightarrow> False) \<and>
   (case ce_tick (two_agents 1) None [turn 0 0 0 0 False False True] (ce_reset (two_agents 1)) of
      Inr u \<Rightarrow> done_envs u = [] \<and> episode_count u = 0
    | Inl e \<Rightarrow> False)"
  by (simp add: shared_defs ma_defs ce_defs numeral_2_eq_2)

text \<open>
  C10, as the code has it.  The processing of the completion events of a tick empties the
  done list of each completed environment and, in the collective collector, its
  \<^verbatim>\<open>ready\<close> and \<^verbatim>\<open>filling\<close> arrays, and nothing else of them: \<^verbatim>\<open>temp_data\<close> and, in the
  collective collector, the accumulated rows and their buffer ids stay as they are.  No
  tick empties \<^verbatim>\<open>temp_data\<close>: a pending row whose buffer id is not the next buffer id of
  one of the tick's lanes is still pending after the tick.
\<close>

theorem pending_survives_reset:
  "(ma_finish ne s = Inr t \<longrightarrow>
      temp_data t = temp_data s \<and>
      (\<forall>k. done_agents_per_env t k =
         (if k \<in> (\<lambda>ev. fst (snd ev)) ` set (done_envs s) then Some []
          else done_agents_per_env s k))) \<and>
   (ce_finish cfg ne c = Inr u \<longrightarrow>
      temp_data u = temp_data c \<and>
      tbd_exps_to_save u = tbd_exps_to_save c \<and>
      tbd_buffer_ids_to_save u = tbd_buffer_ids_to_save c \<and>
      (\<forall>k. done_agents_per_env u k =
              (if k \<in> (\<lambda>ev. fst (snd ev)) ` set (done_envs c) then Some []
               else done_agents_per_env c k) \<and>
            tbd_ready u k =
              (if k \<in> (\<lambda>ev. fst (snd ev)) ` set (done_envs c) then Some (empty_slots cfg)
               else tbd_ready c k) \<and>
            tbd_filling u k =
              (if k \<in> (\<lambda>ev. fst (snd ev)) ` set (done_envs c) then Some (empty_slots cfg)
               else tbd_filling c k))) \<and>
   (ma_tick cfg ne rows s = Inr t' \<longrightarrow>
      dom (temp_data s) - next_buffer_id cfg ` set rows \<subseteq> dom (temp_data t')) \<and>
   (ce_tick cfg ne rows c = Inr u' \<longrightarrow>
      dom (temp_data c) - next_buffer_id cfg ` set rows \<subseteq> dom (temp_data u'))"
  using ma_finish_fields[of ne s t] ma_finish_cleared[of ne s t]
    ce_finish_fields[of cfg ne c u] ce_finish_cleared[of cfg ne c u]
    ma_tick_dom[of cfg ne rows s t'] ce_tick_dom[of cfg ne rows c u']
  by blast

theorem pending_survives_reset_witness:
  "(\<exists>t. ma_finish None ma_completing = Inr t \<and>
      temp_data t 0 = Some (turn 0 0 1 1 False False False) \<and>
      done_agents_per_env ma_completing 0 = Some [0] \<and> done_agents_per_env t 0 = Some []) \<and>
   (\<exists>u. ce_finish (two_agents 1) None ce_completing = Inr u \<and>
      temp_data u 1 = Some (turn 0 1 0 1 False False False) \<and>
      tbd_buffer_ids_to_save u 0 = Some [0] \<and>
      tbd_exps_to_save u 0 = Some [turn 0 0 0 0 False False False] \<and>
      done_agents_per_env u 0 = Some [] \<and> tbd_ready u 0 = Some (empty_slots (two_agents 1))) \<and>
   (\<exists>t'. ma_tick (two_agents 1) None [turn 0 1 1 2 False False False]
            (ma_pending 0 (turn 0 0 1 1 False False False)) = Inr t' \<and>
      0 \<in> dom (temp_data t')) \<and>
   (\<exists>u'. ce_tick (two_agents 1) None [turn 0 1 1 2 False False False]
            (ce_pending 0 (turn 0 0 1 1 False False False)) = Inr u' \<and>
      0 \<in> dom (temp_data u'))"
proof -
  let ?cfg = "two_agents 1"
  let ?r = "turn 0 1 1 2 False False False"
  have "case ma_finish None ma_completing of Inl e \<Rightarrow> False | Inr t \<Rightarrow> True"
    by (simp add: shared_defs ma_defs ma_completing_def ma_pending_def)
  then obtain t where t: "ma_finish None ma_completing = Inr t"
    by (auto dest: sum_case_obtain)
  have "case ce_finish ?cfg None ce_completing of Inl e \<Rightarrow> False | Inr u \<Rightarrow> True"
    by (simp add: shared_defs ce_defs ce_completing_def ce_round_open_def)
  then obtain u where u: "ce_finish ?cfg None ce_completing = Inr u"
    by (auto dest: sum_case_obtain)
  have "case ma_tick ?cfg None [?r] (ma_pending 0 (turn 0 0 1 1 False False False)) of
          Inl e \<Rightarrow> False | Inr t \<Rightarrow> True"
    by (simp add: shared_defs ma_defs ma_pending_def)
  then obtain t' where t': "ma_tick ?cfg None [?r] (ma_pending 0 (turn 0 0 1 1 False False False)) = Inr t'"
    by (auto dest: sum_case_obtain)
  have "case ce_tick ?cfg None [?r] (ce_pending 0 (turn 0 0 1 1 False False False)) of
          Inl e \<Rightarrow> False | Inr t \<Rightarrow> True"
    by (simp add: shared_defs ce_defs ce_pending_def numeral_2_eq_2)
  then obtain u' where u': "ce_tick ?cfg None [?r] (ce_pending 0 (turn 0 0 1 1 False False False)) = Inr u'"
    by (auto dest: sum_case_obtain)
  have m: "temp_data ma_completing 0 = Some (turn 0 0 1 1 False False False)"
    "done_agents_per_env ma_completing 0 = Some [0]"
    "(\<lambda>ev. fst (snd ev)) ` set (done_envs ma_completing) = {0}"
    by (simp_all add: ma_completing_def ma_pending_def ma_reset_def)
  have c: "temp_data ce_completing 1 = Some (turn 0 1 0 1 False False False)"
    "tbd_buffer_ids_to_save ce_completing 0 = Some [0]"
    "tbd_exps_to_save ce_completing 0 = Some [turn 0 0 0 0 False False False]"
    "(\<lambda>ev. fst (snd ev)) ` set (done_envs ce_completing) = {0}"
    by (simp_all add: ce_completing_def ce_round_open_def ce_reset_def)
  have p: "0 \<in> dom (temp_data (ma_pending 0 (turn 0 0 1 1 False False False)))"
    "0 \<in> dom (temp_data (ce_pending 0 (turn 0 0 1 1 False False False)))"
    "next_buffer_id ?cfg ?r = 1"
    by (simp_all add: ma_pending_def ce_pending_def shared_defs)
  from pending_survives_reset [where ne = None and s = ma_completing and t = t,
      THEN conjunct1, THEN mp, OF t] m
  have 1: "temp_data t 0 = Some (turn 0 0 1 1 False False False) \<and>
      done_agents_per_env t 0 = Some []" by simp
  from pending_survives_reset [where cfg = ?cfg and ne = None and c = ce_completing and u = u,
      THEN conjunct2, THEN conjunct1, THEN mp, OF u] c
  have 2: "temp_data u 1 = Some (turn 0 1 0 1 False False False) \<and>
      tbd_buffer_ids_to_save u 0 = Some [0] \<and>
      tbd_exps_to_save u 0 = Some [turn 0 0 0 0 False False False] \<and>
      done_agents_per_env u 0 = Some [] \<and> tbd_ready u 0 = Some (empty_slots ?cfg)" by simp
  from pending_survives_reset [where cfg = ?cfg and ne = None and rows = "[?r]"
      and s = "ma_pending 0 (turn 0 0 1 1 False False False)" and t' = t',
      THEN conjunct2, THEN conjunct2, THEN conjunct1, THEN mp, OF t'] p
  have 3: "0 \<in> dom (temp_data t')" by auto
  from pending_survives_reset [where cfg = ?cfg and ne = None and rows = "[?r]"
      and c = "ce_pending 0 (turn 0 0 1 1 False False False)" and u' = u',
      THEN conjunct2, THEN conjunct2, THEN conjunct2, THEN mp, OF u'] p
  have 4: "0 \<in> dom (temp_data u')" by auto
  from t u t' u' 1 2 3 4 m(2) show ?thesis by blast
qed


text \<open>
  C10 as stated fails for the accumulators of the collective collector: an episode that
  ends while a joint round is open leaves the accumulated row and its buffer id in place
  after the reset of the environment.
\<close>

theorem accumulators_survive_reset_counterexample:
  "case ce_collect (two_agents 1) None (Some 1) (ce_reset (two_agents 1)) open_round_script of
     Returned u \<Rightarrow>
       episode_count u = 1 \<and> done_agents_per_env u 0 = Some [] \<and>
       tbd_ready u 0 = Some [- 1, - 1] \<and> tbd_filling u 0 = Some [- 1, - 1] \<and>
       tbd_buffer_ids_to_save u 0 = Some [0] \<and>
       tbd_exps_to_save u 0 =
         Some [complete_pending (turn 0 0 1 1 False False False) (turn 0 1 0 2 True False True)] \<and>
       temp_data u 1 = Some (turn 0 1 0 2 True False True)
   | _ \<Rightarrow> False"
  by (simp add: shared_defs ce_defs open_round_script_def numeral_2_eq_2)

text \<open>
  C6.  In a tick of a \<^verbatim>\<open>collect\<close> call bounded by \<^verbatim>\<open>n_episode\<close>, in either collector,
  the local indices of the completed lanes are strictly ascending (sorting them changes
  nothing), each is a lane of the tick, and when lanes completed and the surplus is
  positive the new ready set is the old one without the positions of the first
  \<^verbatim>\<open>surplus_env_num\<close> completed lanes; otherwise it is unchanged.
\<close>

theorem trimming_ascending:
  "(ma_tick cfg (Some n) rows s = Inr t \<and> n \<noteq> 0 \<longrightarrow>
      sorted_wrt (<) (map fst (done_envs t)) \<and>
      (\<forall>j\<in>set (map fst (done_envs t)). j < length rows) \<and>
      ready_env_ids t =
        (if done_envs t \<noteq> [] \<and>
            0 < int (length (ready_env_ids s)) - (n - int (episode_count t))
         then nths (ready_env_ids s)
                {j. j \<notin> set (take (nat (int (length (ready_env_ids s)) -
                                            (n - int (episode_count t))))
                                  (map fst (done_envs t)))}
         else ready_env_ids s)) \<and>
   (ce_tick cfg (Some n) rows c = Inr u \<and> n \<noteq> 0 \<longrightarrow>
      sorted_wrt (<) (map fst (done_envs u)) \<and>
      (\<forall>j\<in>set (map fst (done_envs u)). j < length rows) \<and>
      sort (map fst (done_envs u)) = map fst (done_envs u) \<and>
      ready_env_ids u =
        (if done_envs u \<noteq> [] \<and>
            0 < int (length (ready_env_ids c)) - (n - int (episode_count u))
         then nths (ready_env_ids c)
                {j. j \<notin> set (take (nat (int (length (ready_env_ids c)) -
                                            (n - int (episode_count u))))
                                  (map fst (done_envs u)))}
         else ready_env_ids c))"
  using ma_tick_trim[of cfg n rows s t] ce_tick_trim[of cfg n rows c u]
    sorted_wrt_less_sort[of "map fst (done_envs u)"]
  by blast


theorem trimming_ascending_witness:
  "(\<exists>t. ma_tick (two_agents 4) (Some 5) four_lanes
          (begin_collect [0, 1, 2, 3] False (ma_reset (two_agents 4))) = Inr t \<and>
      map fst (done_envs t) = [1, 3] \<and> episode_count t = 2 \<and>
      ready_env_ids t = [0, 2, 3] \<and>
      ready_env_ids t = nths [0, 1, 2, 3] {j. j \<notin> set (take 1 [1, 3])}) \<and>
   (\<exists>u. ce_tick (two_agents 4) (Some 5) four_lanes
          (begin_collect [0, 1, 2, 3] False (ce_reset (two_agents 4))) = Inr u \<and>
      map fst (done_envs u) = [1, 3] \<and> episode_count u = 2 \<and>
      ready_env_ids u = [0, 2, 3] \<and>
      ready_env_ids u = nths [0, 1, 2, 3] {j. j \<notin> set (take 1 [1, 3])})"
proof -
  let ?cfg = "two_agents 4"
  let ?s = "begin_collect [0, 1, 2, 3] False (ma_reset ?cfg)"
  let ?c = "begin_collect [0, 1, 2, 3] False (ce_reset ?cfg)"
  have "case ma_tick ?cfg (Some 5) four_lanes ?s of Inl e \<Rightarrow> False
        | Inr t \<Rightarrow> map fst (done_envs t) = [1, 3] \<and> episode_count t = 2 \<and>
            ready_env_ids t = [0, 2, 3]"
    by (simp add: shared_defs ma_defs four_lanes_def)
  then obtain t where t: "ma_tick ?cfg (Some 5) four_lanes ?s = Inr t"
    "map fst (done_envs t) = [1, 3]" "episode_count t = 2" "ready_env_ids t = [0, 2, 3]"
    by (auto dest: sum_case_obtain)
  have "case ce_tick ?cfg (Some 5) four_lanes ?c of Inl e \<Rightarrow> False
        | Inr u \<Rightarrow> map fst (done_envs u) = [1, 3] \<and> episode_count u = 2 \<and>
            ready_env_ids u = [0, 2, 3]"
    by (simp add: shared_defs ce_defs four_lanes_def numeral_2_eq_2)
  then obtain u where u: "ce_tick ?cfg (Some 5) four_lanes ?c = Inr u"
    "map fst (done_envs u) = [1, 3]" "episode_count u = 2" "ready_env_ids u = [0, 2, 3]"
    by (auto dest: sum_case_obtain)
  have r: "ready_env_ids ?s = [0, 1, 2, 3]" "ready_env_ids ?c = [0, 1, 2, 3]"
    by (simp_all add: begin_collect_def)
  have ht: "ma_tick ?cfg (Some 5) four_lanes ?s = Inr t \<and> (5::int) \<noteq> 0" using t by simp
  have hu: "ce_tick ?cfg (Some 5) four_lanes ?c = Inr u \<and> (5::int) \<noteq> 0" using u by simp
  from t(2) have nt: "done_envs t \<noteq> []" by auto
  from u(2) have nu: "done_envs u \<noteq> []" by auto
  from trimming_ascending [where cfg = ?cfg and n = 5 and rows = four_lanes and s = ?s and t = t,
      THEN conjunct1, THEN mp, OF ht] t(2,3) r nt
  have 1: "ready_env_ids t = nths [0, 1, 2, 3] {j. j \<notin> set (take 1 [1, 3])}"
    by simp
  from trimming_ascending [where cfg = ?cfg and n = 5 and rows = four_lanes and c = ?c and u = u,
      THEN conjunct2, THEN mp, OF hu] u(2,3) r nu
  have 2: "ready_env_ids u = nths [0, 1, 2, 3] {j. j \<notin> set (take 1 [1, 3])}"
    by simp
  have a: "\<exists>t. ma_tick ?cfg (Some 5) four_lanes ?s = Inr t \<and>
      map fst (done_envs t) = [1, 3] \<and> episode_count t = 2 \<and>
      ready_env_ids t = [0, 2, 3] \<and>
      ready_env_ids t = nths [0, 1, 2, 3] {j. j \<notin> set (take 1 [1, 3])}"
    using t 1 by (intro exI[of _ t]) (simp only: simp_thms)
  have b: "\<exists>u. ce_tick ?cfg (Some 5) four_lanes ?c = Inr u \<and>
      map fst (done_envs u) = [1, 3] \<and> episode_count u = 2 \<and>
      ready_env_ids u = [0, 2, 3] \<and>
      ready_env_ids u = nths [0, 1, 2, 3] {j. j \<notin> set (take 1 [1, 3])}"
    using u 2 by (intro exI[of _ u]) (simp only: simp_thms)
  from a b show ?thesis by (rule conjI)
qed

text \<open>
  C2, as the code has it.  No partial joint round reaches the buffer.  A lane of
  \<^verbatim>\<open>CollectiveExperienceCollector.collect\<close> either leaves the tick's batch alone or closes
  a joint round: it appends the accumulated buffer ids of its environment, which are, up
  to order, exactly the live entries of a non-empty \<^verbatim>\<open>ready\<close> array of that environment
  (the one the lane started with, or the \<^verbatim>\<open>filling\<close> array it has just snapshotted), and
  leaves the environment's accumulator, buffer ids and \<^verbatim>\<open>ready\<close> array empty.  The buffer
  ids of the one \<^verbatim>\<open>buffer.add\<close> call of a tick are the concatenation, in lane order, of
  the rounds closed on the tick: each of them is closed by a lane of its own, in the state
  the lanes before it have left; with no round closed there is no call.
\<close>

theorem joint_round_atomicity:
  "(ce_lane cfg i row c = Inr c' \<longrightarrow>
      (buffer_ids_to_save c' = buffer_ids_to_save c \<and>
       experience_to_save c' = experience_to_save c) \<or>
      (\<exists>ids. closes_round cfg row c c' ids)) \<and>
   (ce_tick cfg ne rows c = Inr u \<longrightarrow>
      (\<exists>rounds. buffer_ids_to_save u = concat (map snd rounds) \<and>
         sorted_wrt (<) (map fst rounds) \<and>
         (\<forall>jr\<in>set rounds. fst jr < length rows \<and>
            (\<exists>cj cj'. ce_lanes cfg 0 (take (fst jr) rows) (begin_tick c) = Inr cj \<and>
               ce_lane cfg (fst jr) (rows ! fst jr) cj = Inr cj' \<and>
               closes_round cfg (rows ! fst jr) cj cj' (snd jr))) \<and>
         buffer u = (if rounds = [] then buffer c
                     else buffer c @ [(experience_to_save u, concat (map snd rounds))]))) \<and>
   live (empty_slots cfg) = []"
  using ce_lane_closes[of cfg i row c c'] ce_tick_closed[of cfg ne rows c u]
    live_empty_slots[of cfg]
  by blast

theorem joint_round_atomicity_witness:
  "(\<exists>c'. ce_lane (two_agents 1) 0 (turn 0 0 1 2 False False False) ce_round_open = Inr c' \<and>
      buffer_ids_to_save c' = [0, 1] \<and> tbd_ready ce_round_open 0 = Some [0, 1] \<and>
      closes_round (two_agents 1) (turn 0 0 1 2 False False False) ce_round_open c' [0, 1]) \<and>
   (\<exists>u cj. ce_tick (two_agents 1) None [turn 0 0 1 2 False False False] ce_round_open = Inr u \<and>
      map snd (buffer u) = [[0, 1]] \<and>
      ce_lane (two_agents 1) 0 (turn 0 0 1 2 False False False) (begin_tick ce_round_open) =
        Inr cj \<and>
      closes_round (two_agents 1) (turn 0 0 1 2 False False False) (begin_tick ce_round_open)
        cj [0, 1])"
proof -
  let ?cfg = "two_agents 1" and ?r = "turn 0 0 1 2 False False False"
  have "case ce_lane ?cfg 0 ?r ce_round_open of Inl e \<Rightarrow> False
        | Inr c' \<Rightarrow> buffer_ids_to_save c' = [0, 1]"
    by (simp add: shared_defs ce_defs ce_round_open_def)
  then obtain c' where c: "ce_lane ?cfg 0 ?r ce_round_open = Inr c'"
    "buffer_ids_to_save c' = [0, 1]"
    by (auto dest: sum_case_obtain)
  have "case ce_tick ?cfg None [?r] ce_round_open of Inl e \<Rightarrow> False
        | Inr u \<Rightarrow> map snd (buffer u) = [[0, 1]]"
    by (simp add: shared_defs ce_defs ce_round_open_def)
  then obtain u where u: "ce_tick ?cfg None [?r] ce_round_open = Inr u"
    "map snd (buffer u) = [[0, 1]]"
    by (auto dest: sum_case_obtain)
  have o: "buffer_ids_to_save ce_round_open = []" "tbd_ready ce_round_open 0 = Some [0, 1]"
    "env_id (info ?r) = 0" "buffer ce_round_open = []"
    by (simp_all add: ce_round_open_def ce_reset_def turn_def)
  from joint_round_atomicity [where cfg = ?cfg and i = 0 and row = ?r and c = ce_round_open
      and c' = c', THEN conjunct1, THEN mp, OF c(1)] c(2) o(1)
  obtain ids where i: "closes_round ?cfg ?r ce_round_open c' ids" by auto
  then have "buffer_ids_to_save c' = buffer_ids_to_save ce_round_open @ ids"
    by (auto simp: closes_round_def Let_def)
  with c(2) o(1) have "ids = [0, 1]" by simp
  with i c o(2) have a: "\<exists>c'. ce_lane ?cfg 0 ?r ce_round_open = Inr c' \<and>
      buffer_ids_to_save c' = [0, 1] \<and> tbd_ready ce_round_open 0 = Some [0, 1] \<and>
      closes_round ?cfg ?r ce_round_open c' [0, 1]"
    by (intro exI[of _ c']) (simp only: simp_thms)
  from joint_round_atomicity [where cfg = ?cfg and ne = None and rows = "[?r]"
      and c = ce_round_open and u = u, THEN conjunct2, THEN conjunct1, THEN mp, OF u(1)]
  obtain rounds where r: "sorted_wrt (<) (map fst rounds)"
    "\<forall>jr\<in>set rounds. fst jr < length [?r] \<and>
       (\<exists>cj cj'. ce_lanes ?cfg 0 (take (fst jr) [?r]) (begin_tick ce_round_open) = Inr cj \<and>
          ce_lane ?cfg (fst jr) ([?r] ! fst jr) cj = Inr cj' \<and>
          closes_round ?cfg ([?r] ! fst jr) cj cj' (snd jr))"
    "buffer u = (if rounds = [] then buffer ce_round_open
                 else buffer ce_round_open @ [(experience_to_save u, concat (map snd rounds))])"
    by blast
  from r(3) u(2) o(4) have ne: "rounds \<noteq> []" by auto
  with r(3) u(2) o(4) have cc: "concat (map snd rounds) = [0, 1]" by simp
  from ne obtain jr rest where rs: "rounds = jr # rest" by (cases rounds) auto
  from r(2) rs have z: "fst jr = 0" by simp
  have "rest = []"
  proof (cases rest)
    case Nil
    then show ?thesis .
  next
    case (Cons x xs)
    with r(1) rs z have "0 < fst x" by simp
    moreover from r(2) rs Cons have "fst x < 1" by simp
    ultimately show ?thesis by simp
  qed
  with cc rs have sj: "snd jr = [0, 1]" by simp
  from r(2) rs z sj obtain cj cj' where
    k: "ce_lanes ?cfg 0 (take 0 [?r]) (begin_tick ce_round_open) = Inr cj"
      "ce_lane ?cfg 0 ([?r] ! 0) cj = Inr cj'"
      "closes_round ?cfg ([?r] ! 0) cj cj' [0, 1]"
    by auto
  from k(1) have "cj = begin_tick ce_round_open" by simp
  with k(2,3) have "ce_lane ?cfg 0 ?r (begin_tick ce_round_open) = Inr cj'"
    "closes_round ?cfg ?r (begin_tick ce_round_open) cj' [0, 1]" by simp_all
  with u have b: "\<exists>u cj. ce_tick ?cfg None [?r] ce_round_open = Inr u \<and>
      map snd (buffer u) = [[0, 1]] \<and>
      ce_lane ?cfg 0 ?r (begin_tick ce_round_open) = Inr cj \<and>
      closes_round ?cfg ?r (begin_tick ce_round_open) cj [0, 1]"
    by (intro exI[of _ u] exI[of _ cj']) (simp only: simp_thms)
  from a b show ?thesis by (rule conjI)
qed

text \<open>
  C2 as stated fails with two environments: both close a round on the same tick, and the
  single \<^verbatim>\<open>buffer.add\<close> call takes the buffer ids \<open>0\<close> and \<open>2\<close>, the union of the
  \<^verbatim>\<open>ready\<close> sets of two environments and not one of them.
\<close>

theorem joint_round_atomicity_counterexample:
  "(case ce_collect (two_agents 2) (Some 100) None (ce_reset (two_agents 2)) [two_rounds] of
      Running u \<Rightarrow> map snd (buffer u) = [[0, 2]] \<and> step_count u = 2
    | _ \<Rightarrow> False) \<and>
   (case then_do (ce_mark_filling (two_agents 2) (two_rounds ! 0) (ce_reset (two_agents 2)))
           (ce_boundary (two_agents 2) (two_rounds ! 0)) of
      Inr c \<Rightarrow> tbd_ready c 0 = Some [0, - 1]
    | Inl e \<Rightarrow> False) \<and>
   (case ce_lane (two_agents 2) 0 (two_rounds ! 0) (ce_reset (two_agents 2)) of
      Inr c \<Rightarrow>
        (case then_do (ce_mark_filling (two_agents 2) (two_rounds ! 1) c)
                (ce_boundary (two_agents 2) (two_rounds ! 1)) of
           Inr d \<Rightarrow> tbd_ready d 1 = Some [2, - 1] \<and> tbd_ready d 0 = Some [- 1, - 1]
         | Inl e \<Rightarrow> False)
    | Inl e \<Rightarrow> False)"
  by (simp add: shared_defs ce_defs two_rounds_def numeral_2_eq_2)





end
